theory Spec2Isabelle
  imports Main "HOL-Library.Multiset"
begin

section \<open>Go strings and the standard-library functions the generator calls\<close>

text \<open>
  A Go string that holds valid UTF-8 (every string here comes out of the XML decoder or
  from a literal of the program) is the list of its runes. The functions of the
  generator work rune by rune (\<open>strings.Map\<close>, \<open>[]rune(s)\<close>, \<open>strings.ToLower\<close>,
  \<open>strings.EqualFold\<close>) or cut at ASCII separators (\<open>strings.Split\<close>,
  \<open>strings.ReplaceAll\<close>), so the rune list is the value they see. A rune is its
  code point.
\<close>

type_synonym rune = nat
type_synonym gostring = "rune list"

definition S :: "string \<Rightarrow> gostring" where
  \<comment> \<open>A string literal of the program, as runes.\<close>
  "S s = map of_char s"

text \<open>
  Package \<open>unicode\<close> is not part of the repository. On ASCII its functions are the
  fixed ones below (the fast paths of the Go library); above ASCII they read the Unicode
  tables, which are taken as a parameter, so every theorem holds whatever the tables say.
\<close>

record unicode =
  ext_IsLetter :: "rune \<Rightarrow> bool"
  ext_IsDigit :: "rune \<Rightarrow> bool"
  ext_IsSpace :: "rune \<Rightarrow> bool"
  ext_ToUpper :: "rune \<Rightarrow> rune"
  ext_ToLower :: "rune \<Rightarrow> rune"
  ext_FoldEq :: "rune \<Rightarrow> rune \<Rightarrow> bool"

definition IsLetter :: "unicode \<Rightarrow> rune \<Rightarrow> bool" where
  "IsLetter U r =
     (if r < 128 then (65 \<le> r \<and> r \<le> 90) \<or> (97 \<le> r \<and> r \<le> 122) else ext_IsLetter U r)"

definition IsDigit :: "unicode \<Rightarrow> rune \<Rightarrow> bool" where
  "IsDigit U r = (if r < 128 then 48 \<le> r \<and> r \<le> 57 else ext_IsDigit U r)"

definition IsSpace :: "unicode \<Rightarrow> rune \<Rightarrow> bool" where
  "IsSpace U r = (if r < 128 then (9 \<le> r \<and> r \<le> 13) \<or> r = 32 else ext_IsSpace U r)"

definition ToUpper :: "unicode \<Rightarrow> rune \<Rightarrow> rune" where
  "ToUpper U r = (if r < 128 then (if 97 \<le> r \<and> r \<le> 122 then r - 32 else r) else ext_ToUpper U r)"

definition ToLower :: "unicode \<Rightarrow> rune \<Rightarrow> rune" where
  "ToLower U r = (if r < 128 then (if 65 \<le> r \<and> r \<le> 90 then r + 32 else r) else ext_ToLower U r)"

definition strings_ToLower :: "unicode \<Rightarrow> gostring \<Rightarrow> gostring" where
  "strings_ToLower U s = map (ToLower U) s"

definition rune_FoldEq :: "unicode \<Rightarrow> rune \<Rightarrow> rune \<Rightarrow> bool" where
  \<comment> \<open>One step of \<open>strings.EqualFold\<close>: equal runes, an ASCII letter and its other case,
      or runes the case-folding table puts in one orbit.\<close>
  "rune_FoldEq U a b =
     (a = b \<or>
      (let sr = min a b; tr = max a b
       in if tr < 128 then 65 \<le> sr \<and> sr \<le> 90 \<and> tr = sr + 32 else ext_FoldEq U sr tr))"

definition EqualFold :: "unicode \<Rightarrow> gostring \<Rightarrow> gostring \<Rightarrow> bool" where
  "EqualFold U s t = list_all2 (rune_FoldEq U) s t"

definition TrimSpace :: "unicode \<Rightarrow> gostring \<Rightarrow> gostring" where
  "TrimSpace U s = rev (dropWhile (IsSpace U) (rev (dropWhile (IsSpace U) s)))"

definition ascii_tables :: unicode where
  \<comment> \<open>Tables with nothing above ASCII: no letters, digits or spaces there, no case pairs.\<close>
  "ascii_tables =
     \<lparr>ext_IsLetter = (\<lambda>r. False), ext_IsDigit = (\<lambda>r. False), ext_IsSpace = (\<lambda>r. False),
      ext_ToUpper = (\<lambda>r. r), ext_ToLower = (\<lambda>r. r), ext_FoldEq = (\<lambda>a b. False)\<rparr>"

fun splitAcc :: "rune \<Rightarrow> gostring \<Rightarrow> gostring \<Rightarrow> gostring list" where
  "splitAcc c acc [] = [rev acc]"
| "splitAcc c acc (x # xs) =
     (if x = c then rev acc # splitAcc c [] xs else splitAcc c (x # acc) xs)"

definition Split :: "gostring \<Rightarrow> rune \<Rightarrow> gostring list" where
  \<comment> \<open>\<open>strings.Split(s, sep)\<close> for a separator of one rune.\<close>
  "Split s c = splitAcc c [] s"

definition ReplaceAll :: "gostring \<Rightarrow> rune \<Rightarrow> gostring \<Rightarrow> gostring" where
  \<comment> \<open>\<open>strings.ReplaceAll(s, old, new)\<close> for an \<open>old\<close> of one rune.\<close>
  "ReplaceAll s old new = concat (map (\<lambda>r. if r = old then new else [r]) s)"

definition strings_Map :: "(rune \<Rightarrow> rune option) \<Rightarrow> gostring \<Rightarrow> gostring" where
  \<comment> \<open>\<open>strings.Map\<close>; a mapping that returns -1 drops the rune (\<open>None\<close> here).\<close>
  "strings_Map f s = concat (map (\<lambda>r. case f r of None \<Rightarrow> [] | Some r' \<Rightarrow> [r']) s)"

fun digits :: "nat \<Rightarrow> gostring" where
  "digits n = (if n < 10 then [48 + n] else digits (n div 10) @ [48 + n mod 10])"

declare digits.simps [simp del]

definition Itoa :: "int \<Rightarrow> gostring" where
  \<comment> \<open>The verb \<open>%d\<close> of \<open>fmt.Sprintf\<close>.\<close>
  "Itoa i = (if i < 0 then 45 # digits (nat (- i)) else digits (nat i))"

definition go_lookup :: "(gostring \<times> gostring) list \<Rightarrow> gostring \<Rightarrow> gostring" where
  \<comment> \<open>Reading a \<open>map[string]string\<close>: a missing key reads as the empty string.\<close>
  "go_lookup tbl k = (case map_of tbl k of None \<Rightarrow> [] | Some v \<Rightarrow> v)"

definition lits :: "(string \<times> string) list \<Rightarrow> (gostring \<times> gostring) list" where
  "lits tbl = map (\<lambda>(k, v). (S k, S v)) tbl"

section \<open>Type and identifier mapping\<close>

definition go_keywords :: "string list" where
  \<comment> \<open>The 25 keywords of the Go language.\<close>
  "go_keywords =
     [''break'', ''default'', ''func'', ''interface'', ''select'', ''case'', ''defer'',
      ''go'', ''map'', ''struct'', ''chan'', ''else'', ''goto'', ''package'', ''switch'',
      ''const'', ''fallthrough'', ''if'', ''range'', ''type'', ''continue'', ''for'',
      ''import'', ''return'', ''var'']"

definition reservedWords :: "(string \<times> string) list" where
  "reservedWords =
     [(''break'', ''break_''), (''default'', ''default_''), (''func'', ''func_''),
      (''interface'', ''interface_''), (''select'', ''select_''), (''case'', ''case_''),
      (''defer'', ''defer_''), (''go'', ''go_''), (''map'', ''map_''),
      (''struct'', ''struct_''), (''chan'', ''chan_''), (''else'', ''else_''),
      (''goto'', ''goto_''), (''package'', ''package_''), (''switch'', ''switch_''),
      (''const'', ''const_''), (''fallthrough'', ''fallthrough_''), (''if'', ''if_''),
      (''range'', ''range_''), (''type'', ''type_''), (''continue'', ''continue_''),
      (''for'', ''for_''), (''import'', ''import_''), (''return'', ''return_''),
      (''var'', ''var_'')]"

definition reservedWordsInAttr :: "(string \<times> string) list" where
  "reservedWordsInAttr = reservedWords @ [(''string'', ''astring'')]"

definition normalize :: "unicode \<Rightarrow> gostring \<Rightarrow> gostring" where
  \<comment> \<open>The two entries of \<open>specialCharacterMapping\<close> are replaced first (Go ranges over the
      map in no fixed order; the two replacements touch different runes and neither
      output holds a rune the other looks for), then \<open>strings.Map\<close> filters.\<close>
  "normalize U value0 =
     (let value1 = ReplaceAll value0 43 (S ''Plus'');
          value2 = ReplaceAll value1 64 (S ''At'');
          mapping = (\<lambda>r. if r = 46 \<or> r = 45 then Some 95
                          else if IsLetter U r \<or> IsDigit U r \<or> r = 95 then Some r
                          else None)
      in strings_Map mapping value2)"

definition sanitized :: "unicode \<Rightarrow> gostring \<Rightarrow> bool" where
  \<comment> \<open>An identifier that holds only letters, digits and underscores.\<close>
  "sanitized U s = list_all (\<lambda>r. IsLetter U r \<or> IsDigit U r \<or> r = 95) s"

definition replaceReservedWords :: "unicode \<Rightarrow> gostring \<Rightarrow> gostring" where
  "replaceReservedWords U identifier =
     (let value = go_lookup (lits reservedWords) identifier
      in if value \<noteq> [] then value else normalize U identifier)"

definition replaceAttrReservedWords :: "unicode \<Rightarrow> gostring \<Rightarrow> gostring" where
  "replaceAttrReservedWords U identifier =
     (let value = go_lookup (lits reservedWordsInAttr) identifier
      in if value \<noteq> [] then value else normalize U identifier)"

definition xsd2GoTypes :: "(string \<times> string) list" where
  "xsd2GoTypes =
     [(''string'', ''string''), (''token'', ''string''), (''float'', ''float32''),
      (''double'', ''float64''), (''decimal'', ''float64''), (''integer'', ''int32''),
      (''int'', ''int32''), (''short'', ''int16''), (''byte'', ''int8''),
      (''long'', ''int64''), (''boolean'', ''bool''), (''datetime'', ''string''),
      (''date'', ''string''), (''time'', ''string''), (''base64binary'', ''[]byte''),
      (''hexbinary'', ''[]byte''), (''unsignedint'', ''uint32''),
      (''nonnegativeinteger'', ''uint32''), (''unsignedshort'', ''uint16''),
      (''unsignedbyte'', ''byte''), (''unsignedlong'', ''uint64''),
      (''anytype'', ''AnyType''), (''ncname'', ''NCName''), (''anyuri'', ''AnyURI''),
      (''sdpstring'', ''string''), (''sdpboolean'', ''bool''), (''sdpbyte'', ''int8''),
      (''sdpbigdecimal'', ''float64''), (''sdplong'', ''int64''),
      (''sdpinteger'', ''int32''), (''sdpbiginteger'', ''int32''),
      (''sdpfloat'', ''float32''), (''sdpdouble'', ''float64''), (''sdpshort'', ''int16''),
      (''sdpdate'', ''string''), (''sdptime'', ''string''), (''sdpdatetime'', ''string''),
      (''timestamp'', ''int64'')]"

definition basicTypes :: "(string \<times> string) list" where
  "basicTypes =
     [(''string'', ''string''), (''float32'', ''float32''), (''float64'', ''float64''),
      (''int'', ''int''), (''int8'', ''int8''), (''int16'', ''int16''),
      (''int32'', ''int32''), (''int64'', ''int64''), (''bool'', ''bool''),
      (''time.Time'', ''time.Time''), (''[]byte'', ''[]byte''), (''byte'', ''byte''),
      (''uint16'', ''uint16''), (''uint32'', ''uint32''), (''uinit64'', ''uint64''),
      (''interface{}'', ''interface{}'')]"

definition isBasicType :: "gostring \<Rightarrow> bool" where
  "isBasicType identifier = (map_of (lits basicTypes) identifier \<noteq> None)"

definition makePublic :: "unicode \<Rightarrow> gostring \<Rightarrow> gostring" where
  "makePublic U identifier =
     (if isBasicType identifier then identifier
      else if identifier = [] then S ''EmptyString''
      else (case identifier of
              [] \<Rightarrow> identifier
            | r # field \<Rightarrow> ToUpper U r # field))"

definition makePrivate :: "unicode \<Rightarrow> gostring \<Rightarrow> gostring" where
  "makePrivate U identifier =
     (case identifier of [] \<Rightarrow> identifier | r # field \<Rightarrow> ToLower U r # field)"

definition stripns :: "gostring \<Rightarrow> gostring" where
  "stripns xsdType =
     (case Split xsdType 58 of
        [r0, r1] \<Rightarrow> r1
      | r0 # rest \<Rightarrow> r0
      | [] \<Rightarrow> [])"

definition toGoType :: "unicode \<Rightarrow> gostring \<Rightarrow> bool \<Rightarrow> gostring" where
  "toGoType U xsdType nillable =
     (let t = (case Split xsdType 58 of
                 [r0, r1] \<Rightarrow> r1
               | r0 # rest \<Rightarrow> r0
               | [] \<Rightarrow> []);
          value = go_lookup (lits xsd2GoTypes) (strings_ToLower U t)
      in if value \<noteq> []
         then (if nillable then 42 # value else value)
         else 42 # replaceReservedWords U (makePublic U t))"

section \<open>The document model\<close>

text \<open>
  Modelled from the spec: the declarations of the document model (schema, complex and
  simple type, element, import, include, message and part), which the functions below
  read and write and which are declared in another file of the package. Each record
  carries the fields those functions touch, under the names the code uses
  (\<open>schema.TargetNamespace\<close>, \<open>complexType.Name\<close>, \<open>el.Type\<close>, \<open>msg.Parts\<close>,
  ...); the structural content of a type, opaque here, is the list of the type references
  it holds. The slices hold pointers that the XML decoder fills in, one fresh object for
  each declaration, so an assignment to \<open>complexType.Name\<close> changes that one
  declaration: the update of one list element.
\<close>

record XSDComplexType =
  ct_Name :: gostring
  ct_Content :: "gostring list"

record XSDSimpleType =
  st_Name :: gostring
  st_Content :: "gostring list"

record XSDElement =
  el_Name :: gostring
  el_Type :: gostring

record XSDImport =
  imp_Namespace :: gostring
  imp_SchemaLocation :: gostring

record XSDInclude =
  inc_SchemaLocation :: gostring

record XSDSchema =
  TargetNamespace :: gostring
  Includes :: "XSDInclude list"
  Imports :: "XSDImport list"
  Elements :: "XSDElement list"
  ComplexTypes :: "XSDComplexType list"
  SimpleType :: "XSDSimpleType list"

record WSDLPart =
  part_Name :: gostring
  part_Type :: gostring
  part_Element :: gostring

record WSDLMessage =
  msg_Name :: gostring
  msg_Parts :: "WSDLPart list"

datatype error = Err gostring

section \<open>Start: resolving type-name collisions\<close>

type_synonym seen_map = "gostring \<rightharpoonup> int"
type_synonym collision_map = "gostring \<rightharpoonup> gostring"

definition seen_get :: "seen_map \<Rightarrow> gostring \<Rightarrow> int" where
  \<comment> \<open>Reading a \<open>map[string]int\<close>: a missing key reads as 0.\<close>
  "seen_get seen k = (case seen k of None \<Rightarrow> 0 | Some v \<Rightarrow> v)"

definition seen_incr :: "gostring \<Rightarrow> seen_map \<Rightarrow> seen_map" where
  \<comment> \<open>\<open>seen[name]++\<close>\<close>
  "seen_incr k seen = seen(k \<mapsto> seen_get seen k + 1)"

definition countNames :: "XSDSchema list \<Rightarrow> seen_map" where
  \<comment> \<open>The first loop of \<open>Start\<close>.\<close>
  "countNames schemas =
     fold (\<lambda>schema seen.
             fold (\<lambda>simpleType. seen_incr (st_Name simpleType)) (SimpleType schema)
               (fold (\<lambda>complexType. seen_incr (ct_Name complexType)) (ComplexTypes schema) seen))
          schemas Map.empty"

definition dropSingles :: "seen_map \<Rightarrow> seen_map" where
  \<comment> \<open>The second loop: every key whose count is below 2 is deleted.\<close>
  "dropSingles seen =
     (\<lambda>k. case seen k of None \<Rightarrow> None | Some v \<Rightarrow> if v < 2 then None else Some v)"

definition collisionKey :: "gostring \<Rightarrow> gostring \<Rightarrow> gostring" where
  \<comment> \<open>\<open>fmt.Sprintf("%s/%s", schema.TargetNamespace, org)\<close>\<close>
  "collisionKey ns org = ns @ [47] @ org"

fun renameComplexTypes ::
  "gostring \<Rightarrow> XSDComplexType list \<Rightarrow> seen_map \<times> collision_map \<Rightarrow>
   XSDComplexType list \<times> (seen_map \<times> collision_map)" where
  "renameComplexTypes ns [] st = ([], st)"
| "renameComplexTypes ns (complexType # rest) (seen, coll) =
     (let num = seen_get seen (ct_Name complexType)
      in if num > 0
         then (let org = ct_Name complexType;
                   update = org @ Itoa num;
                   coll' = coll(collisionKey ns org \<mapsto> update);
                   complexType' = complexType\<lparr>ct_Name := update\<rparr>;
                   seen' = seen(org \<mapsto> seen_get seen org - 1);
                   (rest', st') = renameComplexTypes ns rest (seen', coll')
               in (complexType' # rest', st'))
         else (let (rest', st') = renameComplexTypes ns rest (seen, coll)
               in (complexType # rest', st')))"

fun renameSimpleTypes ::
  "gostring \<Rightarrow> XSDSimpleType list \<Rightarrow> seen_map \<times> collision_map \<Rightarrow>
   XSDSimpleType list \<times> (seen_map \<times> collision_map)" where
  "renameSimpleTypes ns [] st = ([], st)"
| "renameSimpleTypes ns (simpleType # rest) (seen, coll) =
     (let num = seen_get seen (st_Name simpleType)
      in if num > 0
         then (let org = st_Name simpleType;
                   update = org @ Itoa num;
                   coll' = coll(collisionKey ns org \<mapsto> update);
                   simpleType' = simpleType\<lparr>st_Name := update\<rparr>;
                   seen' = seen(org \<mapsto> seen_get seen org - 1);
                   (rest', st') = renameSimpleTypes ns rest (seen', coll')
               in (simpleType' # rest', st'))
         else (let (rest', st') = renameSimpleTypes ns rest (seen, coll)
               in (simpleType # rest', st')))"

fun renameSchemas ::
  "XSDSchema list \<Rightarrow> seen_map \<times> collision_map \<Rightarrow>
   XSDSchema list \<times> (seen_map \<times> collision_map)" where
  "renameSchemas [] st = ([], st)"
| "renameSchemas (schema # rest) st =
     (let (cts, st1) = renameComplexTypes (TargetNamespace schema) (ComplexTypes schema) st;
          (sts, st2) = renameSimpleTypes (TargetNamespace schema) (SimpleType schema) st1;
          (rest', st3) = renameSchemas rest st2
      in (schema\<lparr>ComplexTypes := cts, SimpleType := sts\<rparr> # rest', st3))"

definition Start_collisions :: "XSDSchema list \<Rightarrow> XSDSchema list \<times> collision_map" where
  \<comment> \<open>The three loops of \<open>Start\<close> between \<open>unmarshal\<close> and the traverser, on the schema
      collection; the result is the collection with its names rewritten and the map
      \<open>g.resolveCollisions\<close>, which \<open>Start\<close> has just made empty.\<close>
  "Start_collisions schemas =
     (let seen = dropSingles (countNames schemas);
          (schemas', st) = renameSchemas schemas (seen, Map.empty)
      in (schemas', snd st))"

subsection \<open>The renaming as the specification words it\<close>

definition typeOccurrences :: "XSDSchema list \<Rightarrow> (gostring \<times> gostring) list" where
  \<comment> \<open>Every type declaration in traversal order (schema by schema, the complex types of
      a schema before its simple types), as namespace and name.\<close>
  "typeOccurrences schemas =
     concat (map (\<lambda>schema.
                    map (\<lambda>c. (TargetNamespace schema, ct_Name c)) (ComplexTypes schema) @
                    map (\<lambda>s. (TargetNamespace schema, st_Name s)) (SimpleType schema))
                 schemas)"

definition typeNames :: "XSDSchema list \<Rightarrow> gostring list" where
  "typeNames schemas = map snd (typeOccurrences schemas)"

definition remaining :: "gostring list \<Rightarrow> nat \<Rightarrow> int" where
  \<comment> \<open>The occurrences of the \<open>i\<close>-th name that are left at the \<open>i\<close>-th declaration: all of
      them less those already passed.\<close>
  "remaining names i =
     int (count_list names (names ! i)) - int (count_list (take i names) (names ! i))"

definition spec_new_name :: "gostring list \<Rightarrow> nat \<Rightarrow> gostring" where
  "spec_new_name names i =
     (if 2 \<le> count_list names (names ! i) then names ! i @ Itoa (remaining names i)
      else names ! i)"

definition spec_collision_map :: "(gostring \<times> gostring) list \<Rightarrow> collision_map" where
  "spec_collision_map occs =
     fold (\<lambda>i coll.
             if 2 \<le> count_list (map snd occs) (snd (occs ! i))
             then coll(collisionKey (fst (occs ! i)) (snd (occs ! i)) \<mapsto>
                       spec_new_name (map snd occs) i)
             else coll)
          [0..<length occs] Map.empty"

definition sameShape :: "XSDSchema \<Rightarrow> XSDSchema \<Rightarrow> bool" where
  \<comment> \<open>Two schemas that differ at most in the names of their types.\<close>
  "sameShape a b =
     (TargetNamespace a = TargetNamespace b \<and> Includes a = Includes b \<and>
      Imports a = Imports b \<and> Elements a = Elements b \<and>
      map ct_Content (ComplexTypes a) = map ct_Content (ComplexTypes b) \<and>
      map st_Content (SimpleType a) = map st_Content (SimpleType b))"

fun renameOccs ::
  "(gostring \<times> gostring) list \<Rightarrow> seen_map \<times> collision_map \<Rightarrow>
   gostring list \<times> (seen_map \<times> collision_map)" where
  \<comment> \<open>The renaming loop on the flat list of declarations.\<close>
  "renameOccs [] st = ([], st)"
| "renameOccs ((ns, org) # rest) (seen, coll) =
     (let num = seen_get seen org
      in if num > 0
         then (let (rest', st') =
                     renameOccs rest
                       (seen(org \<mapsto> num - 1), coll(collisionKey ns org \<mapsto> org @ Itoa num))
               in ((org @ Itoa num) # rest', st'))
         else (let (rest', st') = renameOccs rest (seen, coll) in (org # rest', st')))"

definition left :: "seen_map \<Rightarrow> gostring list \<Rightarrow> nat \<Rightarrow> int" where
  \<comment> \<open>The counter the loop reads at the \<open>i\<close>-th declaration when it starts from \<open>seen\<close>
      (not positive: the loop leaves the declaration alone).\<close>
  "left seen names i = seen_get seen (names ! i) - int (count_list (take i names) (names ! i))"

definition recordEntry ::
  "seen_map \<Rightarrow> (gostring \<times> gostring) list \<Rightarrow> nat \<Rightarrow> collision_map \<Rightarrow> collision_map" where
  \<comment> \<open>What the loop writes to the collision map at the \<open>i\<close>-th declaration.\<close>
  "recordEntry seen occs i coll =
     (if 0 < left seen (map snd occs) i
      then coll(collisionKey (fst (occs ! i)) (snd (occs ! i)) \<mapsto>
                snd (occs ! i) @ Itoa (left seen (map snd occs) i))
      else coll)"

definition schemaA :: XSDSchema where
  "schemaA =
     \<lparr>TargetNamespace = S ''urn:a'', Includes = [], Imports = [], Elements = [],
      ComplexTypes = [\<lparr>ct_Name = S ''Item'', ct_Content = []\<rparr>,
                      \<lparr>ct_Name = S ''Item1'', ct_Content = [S ''tns:Item'']\<rparr>],
      SimpleType = [\<lparr>st_Name = S ''Code'', st_Content = []\<rparr>]\<rparr>"

definition schemaB :: XSDSchema where
  "schemaB =
     \<lparr>TargetNamespace = S ''urn:b'', Includes = [], Imports = [], Elements = [],
      ComplexTypes = [\<lparr>ct_Name = S ''Item'', ct_Content = []\<rparr>],
      SimpleType = [\<lparr>st_Name = S ''Code'', st_Content = []\<rparr>]\<rparr>"

section \<open>findType\<close>

record WSDL =
  Messages :: "WSDLMessage list"
  Schemas :: "XSDSchema list"

definition noPartsWarning :: "gostring \<Rightarrow> gostring" where
  \<comment> \<open>The line \<open>log.Printf\<close> writes for a message without parts.\<close>
  "noPartsWarning name =
     S ''[WARN] '' @ name @ S '' message doesn'' @ [39] @
     S ''t have any parts, ignoring message...''"

fun findInElements :: "unicode \<Rightarrow> gostring \<Rightarrow> XSDElement list \<Rightarrow> gostring option" where
  \<comment> \<open>The loop over \<open>schema.Elements\<close>; \<open>Some\<close> is the \<open>return\<close> inside it.\<close>
  "findInElements U elRef [] = None"
| "findInElements U elRef (el # els) =
     (if EqualFold U elRef (el_Name el)
      then (if el_Type el \<noteq> [] then Some (stripns (el_Type el)) else Some (el_Name el))
      else findInElements U elRef els)"

fun findInSchemas :: "unicode \<Rightarrow> gostring \<Rightarrow> XSDSchema list \<Rightarrow> gostring option" where
  "findInSchemas U elRef [] = None"
| "findInSchemas U elRef (schema # rest) =
     (case findInElements U elRef (Elements schema) of
        Some t \<Rightarrow> Some t
      | None \<Rightarrow> findInSchemas U elRef rest)"

fun findTypeLoop ::
  "unicode \<Rightarrow> XSDSchema list \<Rightarrow> gostring \<Rightarrow> WSDLMessage list \<Rightarrow> gostring list \<Rightarrow>
   gostring \<times> gostring list" where
  \<comment> \<open>The loop over \<open>g.wsdl.Messages\<close>, with the lines logged so far.\<close>
  "findTypeLoop U schemas message [] lg = ([], lg)"
| "findTypeLoop U schemas message (msg # msgs) lg =
     (if msg_Name msg \<noteq> message then findTypeLoop U schemas message msgs lg
      else (case msg_Parts msg of
              [] \<Rightarrow> findTypeLoop U schemas message msgs (lg @ [noPartsWarning (msg_Name msg)])
            | part # _ \<Rightarrow>
                if part_Type part \<noteq> [] then (stripns (part_Type part), lg)
                else (case findInSchemas U (stripns (part_Element part)) schemas of
                        Some t \<Rightarrow> (t, lg)
                      | None \<Rightarrow> findTypeLoop U schemas message msgs lg)))"

definition findType :: "unicode \<Rightarrow> WSDL \<Rightarrow> gostring \<Rightarrow> gostring \<times> gostring list" where
  \<comment> \<open>The result and the lines written to the log.\<close>
  "findType U wsdl message =
     findTypeLoop U (Schemas wsdl) (stripns message) (Messages wsdl) []"

subsection \<open>findType as the specification words it\<close>

definition carriedType :: "unicode \<Rightarrow> XSDSchema list \<Rightarrow> WSDLMessage \<Rightarrow> gostring option" where
  \<comment> \<open>The type the first part of a message carries: the declared type of the part, or
      else the type (or, without one, the name) of the first element of any schema whose
      name matches the part's element reference, case-insensitively.\<close>
  "carriedType U schemas msg =
     (case msg_Parts msg of
        [] \<Rightarrow> None
      | part # _ \<Rightarrow>
          if part_Type part \<noteq> [] then Some (stripns (part_Type part))
          else (case find (\<lambda>el. EqualFold U (stripns (part_Element part)) (el_Name el))
                          (concat (map Elements schemas)) of
                  None \<Rightarrow> None
                | Some el \<Rightarrow> Some (if el_Type el \<noteq> [] then stripns (el_Type el) else el_Name el)))"

definition findType_spec :: "unicode \<Rightarrow> WSDL \<Rightarrow> gostring \<Rightarrow> gostring" where
  "findType_spec U wsdl message =
     (case List.map_filter (carriedType U (Schemas wsdl))
             (filter (\<lambda>msg. msg_Name msg = stripns message) (Messages wsdl)) of
        [] \<Rightarrow> []
      | t # _ \<Rightarrow> t)"

definition findType_warnings :: "unicode \<Rightarrow> WSDL \<Rightarrow> gostring \<Rightarrow> gostring list" where
  \<comment> \<open>One warning for each message of that name without parts, up to the message that
      yields the result.\<close>
  "findType_warnings U wsdl message =
     map (\<lambda>msg. noPartsWarning (msg_Name msg))
       (filter (\<lambda>msg. msg_Parts msg = [])
          (takeWhile (\<lambda>msg. carriedType U (Schemas wsdl) msg = None)
             (filter (\<lambda>msg. msg_Name msg = stripns message) (Messages wsdl))))"

definition wsdlQuote :: WSDL where
  "wsdlQuote =
     \<lparr>Messages =
        [\<lparr>msg_Name = S ''GetPriceRequest'', msg_Parts = []\<rparr>,
         \<lparr>msg_Name = S ''GetPriceRequest'',
          msg_Parts = [\<lparr>part_Name = S ''parameters'', part_Type = [],
                        part_Element = S ''tns:getprice''\<rparr>]\<rparr>,
         \<lparr>msg_Name = S ''Plain'',
          msg_Parts = [\<lparr>part_Name = S ''body'', part_Type = S ''xsd:string'',
                        part_Element = []\<rparr>]\<rparr>,
         \<lparr>msg_Name = S ''Empty'', msg_Parts = []\<rparr>],
      Schemas =
        [\<lparr>TargetNamespace = S ''urn:q'', Includes = [], Imports = [],
          Elements = [\<lparr>el_Name = S ''GetPrice'', el_Type = S ''tns:GetPriceType''\<rparr>,
                      \<lparr>el_Name = S ''Other'', el_Type = []\<rparr>],
          ComplexTypes = [], SimpleType = []\<rparr>]\<rparr>"

section \<open>The command: NewGoWSDL, main and the writing of the output\<close>

type_synonym bytes = "char list"

text \<open>
  \<open>ParseLocation\<close>, the generation behind \<open>Start\<close> (every fetch of the run happens
  inside it), the formatter \<open>format.Source\<close> and the file system are taken as
  parameters. A run of \<open>main\<close> is the list of what it does, in order; \<open>log.Fatalln\<close> is
  a line on the log followed by \<open>os.Exit(1)\<close>.
\<close>

record 'l GoWSDL =
  loc :: 'l
  g_pkg :: gostring
  ignoreTLS :: bool
  makePublicFn :: "gostring \<Rightarrow> gostring"

definition NewGoWSDL ::
  "unicode \<Rightarrow> (gostring \<Rightarrow> error + 'l) \<Rightarrow> gostring \<Rightarrow> gostring \<Rightarrow> bool \<Rightarrow> bool \<Rightarrow>
   error + 'l GoWSDL" where
  "NewGoWSDL U ParseLocation file0 pkg0 ignoreTLS0 exportAllTypes =
     (let file = TrimSpace U file0
      in if file = [] then Inl (Err (S ''WSDL file is required to generate Go proxy''))
         else (let pkg1 = TrimSpace U pkg0;
                   pkg2 = (if pkg1 = [] then S ''generated_from_wsdl'' else pkg1);
                   fn = (if exportAllTypes then makePublic U else (\<lambda>id. id))
               in case ParseLocation file of
                    Inl err \<Rightarrow> Inl err
                  | Inr r \<Rightarrow> Inr \<lparr>loc = r, g_pkg = pkg2, ignoreTLS = ignoreTLS0,
                                  makePublicFn = fn\<rparr>))"

record flags =
  vers :: bool
  pkg :: gostring
  outFile :: gostring
  dir :: gostring
  insecure :: bool
  makePublicFlag :: bool

definition flagDefaults :: flags where
  \<comment> \<open>The values the flags hold when the command line sets none of them.\<close>
  "flagDefaults =
     \<lparr>vers = False, pkg = S ''mioServizio'', outFile = S ''mioServizio.go'', dir = S ''./'',
      insecure = False, makePublicFlag = True\<rparr>"

record 'l system =
  ParseLocation :: "gostring \<Rightarrow> error + 'l"
  Start :: "'l GoWSDL \<Rightarrow> error + (gostring \<rightharpoonup> bytes)"
  format_Source :: "bytes \<Rightarrow> error + bytes"
  filepath_Join :: "gostring \<Rightarrow> gostring \<Rightarrow> gostring"
  os_MkdirAll :: "gostring \<Rightarrow> error option"
  os_Create :: "gostring \<Rightarrow> error option"
  file_Write :: "gostring \<Rightarrow> bytes \<Rightarrow> error option"

datatype 'l event =
    PrintVersion
  | PrintUsage
  | Exit int
  | LogLine gostring
  | LogError error
  | RunStart "'l GoWSDL"
  | MkdirAll gostring
  | Create gostring
  | Write gostring bytes

definition formattaCodice ::
  "(bytes \<Rightarrow> error + bytes) \<Rightarrow> bytes list \<Rightarrow> bytes \<times> (gostring \<times> error) list" where
  \<comment> \<open>The bytes returned and what \<open>log.Printf\<close> wrote: the fixed text of the diagnostic
      with the formatter's error.\<close>
  "formattaCodice fmt parts =
     (let data = fold (\<lambda>part data. data @ part) parts []
      in case fmt data of
           Inl err \<Rightarrow>
             (data,
              [(S ''Errore nella formattazione del sorgente, scrittura del sorgente non formattato: '',
                err)])
         | Inr codiceFormattato \<Rightarrow> (codiceFormattato, []))"

definition gocode_get :: "(gostring \<rightharpoonup> bytes) \<Rightarrow> string \<Rightarrow> bytes" where
  \<comment> \<open>Reading a \<open>map[string][]byte\<close>: a missing key reads as the empty slice.\<close>
  "gocode_get gocode k = (case gocode (S k) of None \<Rightarrow> [] | Some b \<Rightarrow> b)"

definition fatal :: "error \<Rightarrow> 'l event list" where
  "fatal err = [LogError err, Exit 1]"

definition formatLog :: "(gostring \<times> error) list \<Rightarrow> 'l event list" where
  "formatLog lg = concat (map (\<lambda>(text, err). [LogLine text, LogError err]) lg)"

definition scriviFile :: "'l system \<Rightarrow> gostring \<Rightarrow> bytes \<Rightarrow> 'l event list \<times> bool" where
  \<comment> \<open>What happens, and whether the run goes on (\<open>gestisciErrore\<close> ends it otherwise).\<close>
  "scriviFile sys filePath content =
     (case os_Create sys filePath of
        Some err \<Rightarrow> (Create filePath # fatal err, False)
      | None \<Rightarrow>
          (case file_Write sys filePath content of
             Some err \<Rightarrow> ([Create filePath, Write filePath content] @ fatal err, False)
           | None \<Rightarrow> ([Create filePath, Write filePath content], True)))"

definition scriviCodiceGenerato ::
  "'l system \<Rightarrow> gostring \<Rightarrow> (gostring \<rightharpoonup> bytes) \<Rightarrow> gostring \<Rightarrow> 'l event list \<times> bool" where
  "scriviCodiceGenerato sys outputDir gocode outFile0 =
     (let (code1, lg1) = formattaCodice (format_Source sys)
                           [gocode_get gocode ''header'', gocode_get gocode ''types'',
                            gocode_get gocode ''operations'', gocode_get gocode ''soap''];
          (ev1, ok1) = scriviFile sys (filepath_Join sys outputDir outFile0) code1
      in if \<not> ok1 then (formatLog lg1 @ ev1, False)
         else (let nomeFileServer = S ''server_'' @ outFile0;
                   (code2, lg2) = formattaCodice (format_Source sys)
                                    [gocode_get gocode ''server_header'',
                                     gocode_get gocode ''server_wsdl'',
                                     gocode_get gocode ''server''];
                   (ev2, ok2) = scriviFile sys (filepath_Join sys outputDir nomeFileServer) code2
               in (formatLog lg1 @ ev1 @ formatLog lg2 @ ev2, ok2)))"

definition main :: "unicode \<Rightarrow> 'l system \<Rightarrow> flags \<Rightarrow> gostring list \<Rightarrow> 'l event list" where
  \<comment> \<open>\<open>args\<close> is \<open>os.Args\<close>; the flags are the values \<open>flag.Parse\<close> has stored.\<close>
  "main U sys fl args =
     (if vers fl then [PrintVersion, Exit 0]
      else if length args < 2 then [PrintUsage, Exit 1]
      else (let wsdlPath = last args
            in if outFile fl = wsdlPath
               then [LogLine (S ''Il file di output non pu'' @ [242] @
                              S '' essere lo stesso del file WSDL''), Exit 1]
               else (case NewGoWSDL U (ParseLocation sys) wsdlPath (pkg fl) (insecure fl)
                            (makePublicFlag fl) of
                       Inl err \<Rightarrow> fatal err
                     | Inr gowsdl \<Rightarrow>
                         RunStart gowsdl #
                         (case Start sys gowsdl of
                            Inl err \<Rightarrow> fatal err
                          | Inr gocode \<Rightarrow>
                              (let outputDir = filepath_Join sys (dir fl) (pkg fl)
                               in MkdirAll outputDir #
                                  (case os_MkdirAll sys outputDir of
                                     Some err \<Rightarrow> fatal err
                                   | None \<Rightarrow>
                                       (let (ev, ok) = scriviCodiceGenerato sys outputDir gocode
                                                         (outFile fl)
                                        in if ok then ev @ [LogLine (S ''Daje '' @ [128640, 128640, 128640, 65039])] else ev)))))))"

definition started :: "'l event list \<Rightarrow> bool" where
  \<comment> \<open>The run has reached \<open>Start\<close>, where fetching begins.\<close>
  "started evs = (\<exists>e \<in> set evs. case e of RunStart g \<Rightarrow> True | _ \<Rightarrow> False)"

definition sysLocal :: "gostring system" where
  \<comment> \<open>A system where every location parses, the generation yields one artifact, the
      formatter refuses everything and the file system accepts everything.\<close>
  "sysLocal =
     \<lparr>ParseLocation = (\<lambda>s. Inr s),
      Start = (\<lambda>g. Inr [S ''types'' \<mapsto> ''type T int'']),
      format_Source = (\<lambda>b. Inl (Err (S ''expected package''))),
      filepath_Join = (\<lambda>a b. a @ [47] @ b),
      os_MkdirAll = (\<lambda>p. None), os_Create = (\<lambda>p. None), file_Write = (\<lambda>p b. None)\<rparr>"

definition flagsNoPkg :: flags where
  "flagsNoPkg =
     \<lparr>vers = False, pkg = [], outFile = S ''out.go'', dir = S ''.'', insecure = False,
      makePublicFlag = True\<rparr>"

section \<open>Resolving external schemas\<close>










subsection \<open>The import graph\<close>















section \<open>Properties of the collision resolution\<close>

subsection \<open>Decimal rendering\<close>

lemma digits_nonempty: "digits n \<noteq> []"
  by (subst digits.simps) simp

lemma digits_inj: "digits n = digits m \<Longrightarrow> n = m"
proof (induction n arbitrary: m rule: digits.induct)
  case (1 n)
  show ?case
  proof (cases "n < 10")
    case nlt: True
    show ?thesis
    proof (cases "m < 10")
      case True
      with nlt "1.prems" show ?thesis
        by (simp add: digits.simps [of n] digits.simps [of m])
    next
      case False
      with nlt "1.prems" digits_nonempty [of "m div 10"] show ?thesis
        by (simp add: digits.simps [of n] digits.simps [of m] Cons_eq_append_conv)
    qed
  next
    case nge: False
    show ?thesis
    proof (cases "m < 10")
      case True
      with nge "1.prems" digits_nonempty [of "n div 10"] show ?thesis
        by (simp add: digits.simps [of n] digits.simps [of m] append_eq_Cons_conv)
    next
      case False
      with nge "1.prems" have d: "digits (n div 10) = digits (m div 10)"
        and r: "n mod 10 = m mod 10"
        by (simp_all add: digits.simps [of n] digits.simps [of m])
      from "1.IH" [OF nge d] have "n div 10 = m div 10" .
      with r show ?thesis by (metis div_mult_mod_eq)
    qed
  qed
qed

lemma Itoa_inj_pos: "0 < a \<Longrightarrow> 0 < b \<Longrightarrow> Itoa a = Itoa b \<Longrightarrow> a = b"
  by (auto simp: Itoa_def dest: digits_inj)

subsection \<open>Counting\<close>

lemma seen_get_incr:
  "seen_get (seen_incr k seen) x = (if x = k then seen_get seen k + 1 else seen_get seen x)"
  by (simp add: seen_incr_def seen_get_def)

lemma seen_get_fold_incr:
  "seen_get (fold seen_incr names seen) x = seen_get seen x + int (count_list names x)"
  by (induction names arbitrary: seen) (auto simp: seen_get_incr)

lemma fold_incr_map: "fold (\<lambda>c. seen_incr (f c)) xs seen = fold seen_incr (map f xs) seen"
  by (simp add: fold_map comp_def)

lemma countNames_fold:
  "fold (\<lambda>schema seen.
           fold (\<lambda>simpleType. seen_incr (st_Name simpleType)) (SimpleType schema)
             (fold (\<lambda>complexType. seen_incr (ct_Name complexType)) (ComplexTypes schema) seen))
        schemas seen
   = fold seen_incr (typeNames schemas) seen"
proof (induction schemas arbitrary: seen)
  case Nil
  then show ?case by (simp add: typeNames_def typeOccurrences_def)
next
  case (Cons s schemas)
  have "typeNames (s # schemas) =
          map ct_Name (ComplexTypes s) @ map st_Name (SimpleType s) @ typeNames schemas"
    by (simp add: typeNames_def typeOccurrences_def comp_def)
  moreover have "fold (\<lambda>c. seen_incr (ct_Name c)) (ComplexTypes s) seen
                 = fold seen_incr (map ct_Name (ComplexTypes s)) seen" for seen
    by (rule fold_incr_map)
  moreover have "fold (\<lambda>c. seen_incr (st_Name c)) (SimpleType s) seen
                 = fold seen_incr (map st_Name (SimpleType s)) seen" for seen
    by (rule fold_incr_map)
  ultimately show ?case
    by (simp add: Cons.IH)
qed

lemma seen_get_countNames:
  "seen_get (countNames schemas) x = int (count_list (typeNames schemas) x)"
  unfolding countNames_def countNames_fold
  by (simp add: seen_get_fold_incr) (simp add: seen_get_def)

lemma seen_get_dropSingles:
  "seen_get (dropSingles seen) x = (if seen_get seen x < 2 then 0 else seen_get seen x)"
  by (simp add: dropSingles_def seen_get_def split: option.splits)

lemma count_take_less:
  assumes "i < length xs"
  shows "count_list (take i xs) (xs ! i) < count_list xs (xs ! i)"
proof -
  from assms have "xs = take i xs @ xs ! i # drop (Suc i) xs"
    by (rule id_take_nth_drop)
  then have "count_list xs (xs ! i) =
               count_list (take i xs @ xs ! i # drop (Suc i) xs) (xs ! i)"
    by simp
  then show ?thesis by simp
qed

lemma count_take_mono:
  assumes "i < j" "j \<le> length xs" "xs ! i = x"
  shows "count_list (take i xs) x < count_list (take j xs) x"
proof -
  from assms have i: "i < length (take j xs)" by simp
  from assms have "take i (take j xs) = take i xs" "take j xs ! i = x"
    by (simp_all add: min_def)
  with count_take_less [OF i] show ?thesis by simp
qed

subsection \<open>The renaming loops on the flat list\<close>

lemma renameComplexTypes_flat:
  "renameComplexTypes ns cts st = (cts', st') \<Longrightarrow>
   renameOccs (map (\<lambda>c. (ns, ct_Name c)) cts) st = (map ct_Name cts', st') \<and>
   map ct_Content cts' = map ct_Content cts"
proof (induction cts arbitrary: st cts' st')
  case Nil
  then show ?case by simp
next
  case (Cons c cts)
  obtain seen coll where st: "st = (seen, coll)" by (cases st)
  show ?case
  proof (cases "seen_get seen (ct_Name c) > 0")
    case True
    obtain r s where r: "renameComplexTypes ns cts
        (seen(ct_Name c \<mapsto> seen_get seen (ct_Name c) - 1),
         coll(collisionKey ns (ct_Name c) \<mapsto> ct_Name c @ Itoa (seen_get seen (ct_Name c)))) = (r, s)"
      by (cases "renameComplexTypes ns cts
        (seen(ct_Name c \<mapsto> seen_get seen (ct_Name c) - 1),
         coll(collisionKey ns (ct_Name c) \<mapsto> ct_Name c @ Itoa (seen_get seen (ct_Name c))))")
    from Cons.IH [OF r] Cons.prems True r st show ?thesis
      by (auto simp: Let_def)
  next
    case False
    obtain r s where r: "renameComplexTypes ns cts (seen, coll) = (r, s)"
      by (cases "renameComplexTypes ns cts (seen, coll)")
    from Cons.IH [OF r] Cons.prems False r st show ?thesis
      by (auto simp: Let_def)
  qed
qed

lemma renameSimpleTypes_flat:
  "renameSimpleTypes ns sts st = (sts', st') \<Longrightarrow>
   renameOccs (map (\<lambda>s. (ns, st_Name s)) sts) st = (map st_Name sts', st') \<and>
   map st_Content sts' = map st_Content sts"
proof (induction sts arbitrary: st sts' st')
  case Nil
  then show ?case by simp
next
  case (Cons c sts)
  obtain seen coll where st: "st = (seen, coll)" by (cases st)
  show ?case
  proof (cases "seen_get seen (st_Name c) > 0")
    case True
    obtain r s where r: "renameSimpleTypes ns sts
        (seen(st_Name c \<mapsto> seen_get seen (st_Name c) - 1),
         coll(collisionKey ns (st_Name c) \<mapsto> st_Name c @ Itoa (seen_get seen (st_Name c)))) = (r, s)"
      by (cases "renameSimpleTypes ns sts
        (seen(st_Name c \<mapsto> seen_get seen (st_Name c) - 1),
         coll(collisionKey ns (st_Name c) \<mapsto> st_Name c @ Itoa (seen_get seen (st_Name c))))")
    from Cons.IH [OF r] Cons.prems True r st show ?thesis
      by (auto simp: Let_def)
  next
    case False
    obtain r s where r: "renameSimpleTypes ns sts (seen, coll) = (r, s)"
      by (cases "renameSimpleTypes ns sts (seen, coll)")
    from Cons.IH [OF r] Cons.prems False r st show ?thesis
      by (auto simp: Let_def)
  qed
qed

lemma renameOccs_append:
  "renameOccs a st = (xa, st1) \<Longrightarrow> renameOccs b st1 = (xb, st2) \<Longrightarrow>
   renameOccs (a @ b) st = (xa @ xb, st2)"
proof (induction a arbitrary: st xa)
  case Nil
  then show ?case by simp
next
  case (Cons p a)
  obtain ns org where p: "p = (ns, org)" by (cases p)
  obtain seen coll where st: "st = (seen, coll)" by (cases st)
  show ?case
  proof (cases "seen_get seen org > 0")
    case True
    obtain r s where r: "renameOccs a
        (seen(org \<mapsto> seen_get seen org - 1),
         coll(collisionKey ns org \<mapsto> org @ Itoa (seen_get seen org))) = (r, s)"
      by (cases "renameOccs a
        (seen(org \<mapsto> seen_get seen org - 1),
         coll(collisionKey ns org \<mapsto> org @ Itoa (seen_get seen org)))")
    with Cons.prems True p st have "s = st1" "xa = (org @ Itoa (seen_get seen org)) # r"
      by (auto simp: Let_def)
    with Cons.IH [of _ r] r Cons.prems(2) True p st show ?thesis
      by (simp add: Let_def)
  next
    case False
    obtain r s where r: "renameOccs a (seen, coll) = (r, s)"
      by (cases "renameOccs a (seen, coll)")
    with Cons.prems False p st have "s = st1" "xa = org # r"
      by (auto simp: Let_def)
    with Cons.IH [of _ r] r Cons.prems(2) False p st show ?thesis
      by (simp add: Let_def)
  qed
qed

lemma typeOccurrences_Cons:
  "typeOccurrences (s # schemas) =
     map (\<lambda>c. (TargetNamespace s, ct_Name c)) (ComplexTypes s) @
     map (\<lambda>t. (TargetNamespace s, st_Name t)) (SimpleType s) @ typeOccurrences schemas"
  by (simp add: typeOccurrences_def)

lemma renameSchemas_flat:
  "renameSchemas schemas st = (schemas', st') \<Longrightarrow>
   renameOccs (typeOccurrences schemas) st = (typeNames schemas', st') \<and>
   list_all2 sameShape schemas schemas' \<and>
   map fst (typeOccurrences schemas') = map fst (typeOccurrences schemas)"
proof (induction schemas arbitrary: st schemas' st')
  case Nil
  then show ?case by (simp add: typeOccurrences_def typeNames_def)
next
  case (Cons s schemas)
  obtain cts st1 where c: "renameComplexTypes (TargetNamespace s) (ComplexTypes s) st = (cts, st1)"
    by (cases "renameComplexTypes (TargetNamespace s) (ComplexTypes s) st")
  obtain sts st2 where t: "renameSimpleTypes (TargetNamespace s) (SimpleType s) st1 = (sts, st2)"
    by (cases "renameSimpleTypes (TargetNamespace s) (SimpleType s) st1")
  obtain rest st3 where r: "renameSchemas schemas st2 = (rest, st3)"
    by (cases "renameSchemas schemas st2")
  from Cons.prems c t r
  have res: "schemas' = s\<lparr>ComplexTypes := cts, SimpleType := sts\<rparr> # rest" "st' = st3"
    by simp_all
  note fc = renameComplexTypes_flat [OF c]
  note ft = renameSimpleTypes_flat [OF t]
  note ih = Cons.IH [OF r]
  note fc1 = fc [THEN conjunct1]
  note ft1 = ft [THEN conjunct1]
  note ih1 = ih [THEN conjunct1]
  from fc have lc: "length cts = length (ComplexTypes s)"
    by (metis length_map)
  from ft have lt: "length sts = length (SimpleType s)"
    by (metis length_map)
  have "renameOccs (map (\<lambda>t. (TargetNamespace s, st_Name t)) (SimpleType s) @ typeOccurrences schemas) st1
        = (map st_Name sts @ typeNames rest, st3)"
    using ft1 ih1 by (rule renameOccs_append)
  with fc1 have "renameOccs (typeOccurrences (s # schemas)) st
        = (map ct_Name cts @ map st_Name sts @ typeNames rest, st3)"
    unfolding typeOccurrences_Cons by (rule renameOccs_append)
  moreover have "typeNames schemas' = map ct_Name cts @ map st_Name sts @ typeNames rest"
    by (simp add: res typeNames_def typeOccurrences_Cons comp_def)
  moreover have "sameShape s (s\<lparr>ComplexTypes := cts, SimpleType := sts\<rparr>)"
    using fc ft by (simp add: sameShape_def)
  moreover have "map fst (typeOccurrences schemas') = map fst (typeOccurrences (s # schemas))"
    using ih lc lt by (simp add: res typeOccurrences_Cons comp_def map_replicate_const)
  ultimately show ?case using ih res by simp
qed

lemma renameOccs_length: "length (fst (renameOccs occs st)) = length occs"
proof (induction occs arbitrary: st)
  case Nil
  then show ?case by simp
next
  case (Cons p occs)
  obtain ns org where p: "p = (ns, org)" by (cases p)
  obtain seen coll where st: "st = (seen, coll)" by (cases st)
  show ?case
    using Cons.IH by (simp add: p st Let_def split: prod.splits) (metis fst_conv)
qed

lemma left_0: "left seen (x # names) 0 = seen_get seen x"
  by (simp add: left_def)

lemma left_Suc_pos:
  "0 < seen_get seen x \<Longrightarrow>
   left (seen(x \<mapsto> seen_get seen x - 1)) names i = left seen (x # names) (Suc i)"
  by (simp add: left_def seen_get_def)

lemma left_Suc_zero_pos:
  "\<not> 0 < seen_get seen x \<Longrightarrow> 0 < left seen names i \<Longrightarrow>
   left seen (x # names) (Suc i) = left seen names i"
  by (auto simp: left_def)

lemma left_Suc_zero_neg:
  "\<not> 0 < seen_get seen x \<Longrightarrow> \<not> 0 < left seen names i \<Longrightarrow>
   \<not> 0 < left seen (x # names) (Suc i)"
  by (auto simp: left_def)

lemma renameOccs_Cons_pos:
  assumes "0 < seen_get seen org"
    and "renameOccs occs (seen(org \<mapsto> seen_get seen org - 1),
           coll(collisionKey ns org \<mapsto> org @ Itoa (seen_get seen org))) = (r, s)"
  shows "renameOccs ((ns, org) # occs) (seen, coll) = ((org @ Itoa (seen_get seen org)) # r, s)"
  using assms by (simp add: Let_def)

lemma renameOccs_Cons_zero:
  assumes "\<not> 0 < seen_get seen org"
    and "renameOccs occs (seen, coll) = (r, s)"
  shows "renameOccs ((ns, org) # occs) (seen, coll) = (org # r, s)"
  using assms by (simp add: Let_def)

lemma renameOccs_nth:
  "i < length occs \<Longrightarrow>
   fst (renameOccs occs (seen, coll)) ! i =
     (if 0 < left seen (map snd occs) i
      then snd (occs ! i) @ Itoa (left seen (map snd occs) i) else snd (occs ! i))"
proof (induction occs arbitrary: i seen coll)
  case Nil
  then show ?case by simp
next
  case (Cons p occs)
  obtain ns org where p: "p = (ns, org)" by (cases p)
  show ?case
  proof (cases "0 < seen_get seen org")
    case True
    define seen' where "seen' = seen(org \<mapsto> seen_get seen org - 1)"
    define coll' where "coll' = coll(collisionKey ns org \<mapsto> org @ Itoa (seen_get seen org))"
    obtain r s where r: "renameOccs occs (seen', coll') = (r, s)"
      by (cases "renameOccs occs (seen', coll')")
    then have eq: "renameOccs (p # occs) (seen, coll) = ((org @ Itoa (seen_get seen org)) # r, s)"
      unfolding p seen'_def coll'_def by (rule renameOccs_Cons_pos [OF True])
    show ?thesis
    proof (cases i)
      case 0
      with True show ?thesis unfolding eq by (simp add: p left_0)
    next
      case (Suc j)
      with Cons.prems have j: "j < length occs" by simp
      have "left seen' (map snd occs) j = left seen (map snd (p # occs)) (Suc j)"
        unfolding seen'_def p using left_Suc_pos [OF True] by simp
      with Cons.IH [OF j, of seen' coll'] r show ?thesis
        unfolding eq Suc by (simp add: p)
    qed
  next
    case False
    obtain r s where r: "renameOccs occs (seen, coll) = (r, s)"
      by (cases "renameOccs occs (seen, coll)")
    then have eq: "renameOccs (p # occs) (seen, coll) = (org # r, s)"
      unfolding p by (rule renameOccs_Cons_zero [OF False])
    show ?thesis
    proof (cases i)
      case 0
      with False show ?thesis unfolding eq by (simp add: p left_0)
    next
      case (Suc j)
      with Cons.prems have j: "j < length occs" by simp
      have ih: "r ! j =
          (if 0 < left seen (map snd occs) j
           then snd (occs ! j) @ Itoa (left seen (map snd occs) j) else snd (occs ! j))"
        using Cons.IH [OF j, of seen coll] r by simp
      show ?thesis
      proof (cases "0 < left seen (map snd occs) j")
        case True
        from left_Suc_zero_pos [OF False True]
        have "left seen (map snd (p # occs)) (Suc j) = left seen (map snd occs) j"
          by (simp add: p)
        with True ih show ?thesis unfolding eq Suc by simp
      next
        case neg: False
        from left_Suc_zero_neg [OF False neg]
        have "\<not> 0 < left seen (map snd (p # occs)) (Suc j)"
          by (simp add: p)
        with neg ih show ?thesis unfolding eq Suc by simp
      qed
    qed
  qed
qed

lemma fold_upt_Suc:
  "fold f [0..<Suc n] a = fold (\<lambda>i. f (Suc i)) [0..<n] (f 0 a)"
proof -
  have "[0..<Suc n] = 0 # map Suc [0..<n]"
    by (simp add: upt_conv_Cons map_Suc_upt del: upt_Suc)
  then show ?thesis by (simp add: fold_map comp_def del: upt_Suc)
qed

lemma renameOccs_coll:
  "snd (snd (renameOccs occs (seen, coll))) =
     fold (recordEntry seen occs) [0..<length occs] coll"
proof (induction occs arbitrary: seen coll)
  case Nil
  then show ?case by simp
next
  case (Cons p occs)
  obtain ns org where p: "p = (ns, org)" by (cases p)
  show ?case
  proof (cases "0 < seen_get seen org")
    case True
    define seen' where "seen' = seen(org \<mapsto> seen_get seen org - 1)"
    define coll' where "coll' = coll(collisionKey ns org \<mapsto> org @ Itoa (seen_get seen org))"
    obtain r s where r: "renameOccs occs (seen', coll') = (r, s)"
      by (cases "renameOccs occs (seen', coll')")
    then have eq: "renameOccs (p # occs) (seen, coll) = ((org @ Itoa (seen_get seen org)) # r, s)"
      unfolding p seen'_def coll'_def by (rule renameOccs_Cons_pos [OF True])
    have step: "recordEntry seen (p # occs) (Suc i) = recordEntry seen' occs i" for i
      unfolding seen'_def p
      by (rule ext) (simp add: recordEntry_def left_Suc_pos [OF True])
    have first: "recordEntry seen (p # occs) 0 coll = coll'"
      unfolding coll'_def p using True by (simp add: recordEntry_def left_0)
    have "fold (recordEntry seen (p # occs)) [0..<length (p # occs)] coll
          = fold (recordEntry seen' occs) [0..<length occs] coll'"
      by (simp add: fold_upt_Suc step first del: upt_Suc)
    with Cons.IH [of seen' coll'] r show ?thesis
      unfolding eq by simp
  next
    case False
    obtain r s where r: "renameOccs occs (seen, coll) = (r, s)"
      by (cases "renameOccs occs (seen, coll)")
    then have eq: "renameOccs (p # occs) (seen, coll) = (org # r, s)"
      unfolding p by (rule renameOccs_Cons_zero [OF False])
    have step: "recordEntry seen (p # occs) (Suc i) = recordEntry seen occs i" for i
    proof (cases "0 < left seen (map snd occs) i")
      case True
      from left_Suc_zero_pos [OF False True]
      have "left seen (map snd (p # occs)) (Suc i) = left seen (map snd occs) i"
        by (simp add: p)
      with True show ?thesis by (intro ext) (simp add: recordEntry_def)
    next
      case neg: False
      from left_Suc_zero_neg [OF False neg]
      have "\<not> 0 < left seen (map snd (p # occs)) (Suc i)"
        by (simp add: p)
      with neg show ?thesis by (intro ext) (simp add: recordEntry_def)
    qed
    have first: "recordEntry seen (p # occs) 0 coll = coll"
      unfolding p using False by (simp add: recordEntry_def left_0)
    have "fold (recordEntry seen (p # occs)) [0..<length (p # occs)] coll
          = fold (recordEntry seen occs) [0..<length occs] coll"
      by (simp add: fold_upt_Suc step first del: upt_Suc)
    with Cons.IH [of seen coll] r show ?thesis
      unfolding eq by simp
  qed
qed

lemma left_initial:
  assumes "i < length (typeNames schemas)"
  shows "left (dropSingles (countNames schemas)) (typeNames schemas) i =
           (if 2 \<le> count_list (typeNames schemas) (typeNames schemas ! i)
            then remaining (typeNames schemas) i
            else - int (count_list (take i (typeNames schemas)) (typeNames schemas ! i)))"
  by (simp add: left_def seen_get_dropSingles seen_get_countNames remaining_def)

lemma remaining_pos: "i < length names \<Longrightarrow> 0 < remaining names i"
  using count_take_less [of i names] by (simp add: remaining_def)

lemma remaining_le: "remaining names i \<le> int (count_list names (names ! i))"
  by (simp add: remaining_def)

lemma left_initial_pos:
  assumes "i < length (typeNames schemas)"
  shows "0 < left (dropSingles (countNames schemas)) (typeNames schemas) i
           \<longleftrightarrow> 2 \<le> count_list (typeNames schemas) (typeNames schemas ! i)"
  using remaining_pos [OF assms] by (simp add: left_initial [OF assms])

lemma renamed_nth:
  assumes "i < length (typeNames schemas)"
  shows "fst (renameOccs (typeOccurrences schemas) (dropSingles (countNames schemas), coll)) ! i
         = spec_new_name (typeNames schemas) i"
proof -
  from assms have i: "i < length (typeOccurrences schemas)"
    by (simp add: typeNames_def)
  have n: "map snd (typeOccurrences schemas) = typeNames schemas"
    by (simp add: typeNames_def)
  have x: "snd (typeOccurrences schemas ! i) = typeNames schemas ! i"
    using i by (simp add: typeNames_def)
  show ?thesis
    unfolding renameOccs_nth [OF i] n x spec_new_name_def left_initial_pos [OF assms]
    by (simp add: left_initial [OF assms])
qed

lemma renamed_names:
  "fst (renameOccs (typeOccurrences schemas) (dropSingles (countNames schemas), coll))
   = map (spec_new_name (typeNames schemas)) [0..<length (typeNames schemas)]"
proof (rule nth_equalityI)
  show "length (fst (renameOccs (typeOccurrences schemas) (dropSingles (countNames schemas), coll)))
        = length (map (spec_new_name (typeNames schemas)) [0..<length (typeNames schemas)])"
    by (simp add: renameOccs_length typeNames_def)
next
  fix i
  assume "i < length (fst (renameOccs (typeOccurrences schemas)
                (dropSingles (countNames schemas), coll)))"
  then have i: "i < length (typeNames schemas)"
    by (simp add: renameOccs_length typeNames_def)
  then show "fst (renameOccs (typeOccurrences schemas) (dropSingles (countNames schemas), coll)) ! i
             = map (spec_new_name (typeNames schemas)) [0..<length (typeNames schemas)] ! i"
    by (simp add: renamed_nth)
qed

lemma recorded_map:
  "snd (snd (renameOccs (typeOccurrences schemas) (dropSingles (countNames schemas), Map.empty)))
   = spec_collision_map (typeOccurrences schemas)"
proof -
  let ?occs = "typeOccurrences schemas"
  have n: "map snd ?occs = typeNames schemas"
    by (simp add: typeNames_def)
  have "recordEntry (dropSingles (countNames schemas)) ?occs i =
        (\<lambda>coll. if 2 \<le> count_list (map snd ?occs) (snd (?occs ! i))
                 then coll(collisionKey (fst (?occs ! i)) (snd (?occs ! i)) \<mapsto>
                           spec_new_name (map snd ?occs) i)
                 else coll)"
    if "i \<in> set [0..<length ?occs]" for i
  proof -
    from that have i: "i < length (typeNames schemas)" by (simp add: typeNames_def)
    then have x: "snd (?occs ! i) = typeNames schemas ! i"
      by (simp add: typeNames_def)
    show ?thesis
      unfolding recordEntry_def n x left_initial_pos [OF i] spec_new_name_def
      by (rule ext) (simp add: left_initial [OF i])
  qed
  then show ?thesis
    unfolding renameOccs_coll spec_collision_map_def by (intro fold_cong) simp_all
qed

lemma fold_keeps:
  assumes "\<And>x m. x \<in> set xs \<Longrightarrow> f x m k = m k"
  shows "fold f xs m k = m k"
  using assms by (induction xs arbitrary: m) simp_all

lemma spec_collision_map_entry:
  assumes i: "i < length occs"
    and c: "2 \<le> count_list (map snd occs) (snd (occs ! i))"
    and later: "\<And>j. i < j \<Longrightarrow> j < length occs \<Longrightarrow>
                  2 \<le> count_list (map snd occs) (snd (occs ! j)) \<Longrightarrow>
                  collisionKey (fst (occs ! j)) (snd (occs ! j)) \<noteq>
                  collisionKey (fst (occs ! i)) (snd (occs ! i))"
  shows "spec_collision_map occs (collisionKey (fst (occs ! i)) (snd (occs ! i)))
         = Some (spec_new_name (map snd occs) i)"
proof -
  let ?f = "\<lambda>i coll.
             if 2 \<le> count_list (map snd occs) (snd (occs ! i))
             then coll(collisionKey (fst (occs ! i)) (snd (occs ! i)) \<mapsto>
                       spec_new_name (map snd occs) i)
             else coll"
  let ?k = "collisionKey (fst (occs ! i)) (snd (occs ! i))"
  from i have "[0..<length occs] = [0..<i] @ [i..<length occs]"
    using upt_add_eq_append [of 0 i "length occs - i"] by simp
  with i have "[0..<length occs] = [0..<i] @ i # [Suc i..<length occs]"
    by (simp add: upt_conv_Cons)
  then have "spec_collision_map occs =
             fold ?f [Suc i..<length occs] (?f i (fold ?f [0..<i] Map.empty))"
    unfolding spec_collision_map_def by simp
  moreover have "fold ?f [Suc i..<length occs] m ?k = m ?k" for m
  proof (rule fold_keeps)
    fix x m
    assume "x \<in> set [Suc i..<length occs]"
    then have x: "i < x" "x < length occs" by simp_all
    show "?f x m ?k = m ?k"
    proof (cases "2 \<le> count_list (map snd occs) (snd (occs ! x))")
      case True
      from later [OF x True] show ?thesis by simp
    next
      case False
      then show ?thesis by simp
    qed
  qed
  ultimately show ?thesis using c by simp
qed

lemma Start_collisions_flat:
  assumes "Start_collisions schemas = (schemas', coll)"
  shows "typeNames schemas' =
           map (spec_new_name (typeNames schemas)) [0..<length (typeNames schemas)]"
    and "coll = spec_collision_map (typeOccurrences schemas)"
    and "list_all2 sameShape schemas schemas'"
    and "map fst (typeOccurrences schemas') = map fst (typeOccurrences schemas)"
proof -
  obtain st where r: "renameSchemas schemas (dropSingles (countNames schemas), Map.empty)
                      = (schemas', st)" and c: "coll = snd st"
    using assms by (auto simp: Start_collisions_def Let_def split: prod.splits)
  note f = renameSchemas_flat [OF r]
  from f have o: "renameOccs (typeOccurrences schemas)
                    (dropSingles (countNames schemas), Map.empty) = (typeNames schemas', st)"
    by (rule conjunct1)
  from renamed_names [of schemas Map.empty] o
  show "typeNames schemas' =
          map (spec_new_name (typeNames schemas)) [0..<length (typeNames schemas)]"
    by simp
  from recorded_map [of schemas] o c
  show "coll = spec_collision_map (typeOccurrences schemas)"
    by simp
  from f show "list_all2 sameShape schemas schemas'"
    and "map fst (typeOccurrences schemas') = map fst (typeOccurrences schemas)"
    by simp_all
qed

lemma spec_new_name_once:
  "count_list names (names ! i) = 1 \<Longrightarrow> spec_new_name names i = names ! i"
  by (simp add: spec_new_name_def)

lemma spec_new_name_twice:
  "2 \<le> count_list names (names ! i) \<Longrightarrow>
   spec_new_name names i = names ! i @ Itoa (remaining names i)"
  by (simp add: spec_new_name_def)

lemma remaining_decreases:
  assumes "i < j" "j < length names" "names ! i = names ! j"
  shows "remaining names j < remaining names i"
  using count_take_mono [of i j names "names ! i"] assms by (simp add: remaining_def)

lemma repeated_twice:
  fixes names :: "gostring list"
  assumes "i < j" "j < length names" "names ! i = names ! j"
  shows "2 \<le> count_list names (names ! i)"
proof -
  from assms have "0 < remaining names j" "remaining names j < remaining names i"
    by (simp_all add: remaining_pos remaining_decreases)
  with remaining_le [of names i] show ?thesis by linarith
qed

lemma spec_new_name_distinct:
  assumes "i < j" "j < length names" "names ! i = names ! j"
  shows "spec_new_name names i \<noteq> spec_new_name names j"
proof -
  from assms have c: "2 \<le> count_list names (names ! i)" by (rule repeated_twice)
  from assms have p: "0 < remaining names i" "0 < remaining names j"
    by (simp_all add: remaining_pos)
  from assms have "remaining names j \<noteq> remaining names i"
    using remaining_decreases [of i j names] by simp
  with p have "Itoa (remaining names j) \<noteq> Itoa (remaining names i)"
    by (metis Itoa_inj_pos)
  with c assms(3) show ?thesis
    by (simp add: spec_new_name_twice)
qed

lemma spec_collision_map_last:
  assumes i: "i < length occs"
    and c: "2 \<le> count_list (map snd occs) (snd (occs ! i))"
  shows "\<exists>j. i \<le> j \<and> j < length occs \<and>
             2 \<le> count_list (map snd occs) (snd (occs ! j)) \<and>
             collisionKey (fst (occs ! j)) (snd (occs ! j)) =
               collisionKey (fst (occs ! i)) (snd (occs ! i)) \<and>
             spec_collision_map occs (collisionKey (fst (occs ! i)) (snd (occs ! i)))
               = Some (spec_new_name (map snd occs) j)"
proof -
  let ?k = "\<lambda>j. collisionKey (fst (occs ! j)) (snd (occs ! j))"
  let ?J = "{j. j < length occs \<and> 2 \<le> count_list (map snd occs) (snd (occs ! j)) \<and> ?k j = ?k i}"
  have fin: "finite ?J" by simp
  from i c have ne: "i \<in> ?J" by simp
  define m where "m = Max ?J"
  from fin ne have m: "m \<in> ?J" unfolding m_def by (intro Max_in) auto
  from fin ne have im: "i \<le> m" unfolding m_def by (intro Max_ge) auto
  have "spec_collision_map occs (?k m) = Some (spec_new_name (map snd occs) m)"
  proof (rule spec_collision_map_entry)
    from m show "m < length occs" and "2 \<le> count_list (map snd occs) (snd (occs ! m))"
      by simp_all
  next
    fix j
    assume j: "m < j" "j < length occs" "2 \<le> count_list (map snd occs) (snd (occs ! j))"
    show "?k j \<noteq> ?k m"
    proof
      assume "?k j = ?k m"
      with j m have "j \<in> ?J" by simp
      with fin have "j \<le> m" unfolding m_def by (intro Max_ge)
      with j show False by simp
    qed
  qed
  with m im show ?thesis by auto
qed

text \<open>
  C1. The three loops of \<open>Start\<close> rename as the specification words it. The schemas
  keep their shape and their namespaces; the names after the loops are the names the
  specification assigns (\<open>spec_new_name\<close>), and the collision map is the one the
  specification builds (\<open>spec_collision_map\<close>). In particular a name that occurs once
  is left alone; an occurrence of a name that occurs at least twice receives the name
  followed by the number of occurrences not yet passed, which is positive and at most the
  count; the map holds, under the key of that occurrence, the new name of the last renamed
  occurrence with this key (the occurrence itself when no later one shares the key); and
  two occurrences of one name receive different suffixes, the later the smaller.
\<close>

theorem Start_collisions_follows_spec:
  assumes "Start_collisions schemas = (schemas', coll)"
  shows "list_all2 sameShape schemas schemas' \<and>
         map fst (typeOccurrences schemas') = map fst (typeOccurrences schemas) \<and>
         typeNames schemas' =
           map (spec_new_name (typeNames schemas)) [0..<length (typeNames schemas)] \<and>
         coll = spec_collision_map (typeOccurrences schemas) \<and>
         (\<forall>i < length (typeNames schemas).
            (count_list (typeNames schemas) (typeNames schemas ! i) = 1 \<longrightarrow>
               typeNames schemas' ! i = typeNames schemas ! i) \<and>
            (2 \<le> count_list (typeNames schemas) (typeNames schemas ! i) \<longrightarrow>
               typeNames schemas' ! i =
                 typeNames schemas ! i @ Itoa (remaining (typeNames schemas) i) \<and>
               0 < remaining (typeNames schemas) i \<and>
               remaining (typeNames schemas) i
                 \<le> int (count_list (typeNames schemas) (typeNames schemas ! i)) \<and>
               (\<exists>j. i \<le> j \<and> j < length (typeNames schemas) \<and>
                    2 \<le> count_list (typeNames schemas) (typeNames schemas ! j) \<and>
                    collisionKey (fst (typeOccurrences schemas ! j)) (typeNames schemas ! j) =
                      collisionKey (fst (typeOccurrences schemas ! i)) (typeNames schemas ! i) \<and>
                    coll (collisionKey (fst (typeOccurrences schemas ! i))
                                       (typeNames schemas ! i))
                      = Some (typeNames schemas' ! j)))) \<and>
         (\<forall>i j. i < j \<and> j < length (typeNames schemas) \<and>
                 typeNames schemas ! i = typeNames schemas ! j \<longrightarrow>
                 remaining (typeNames schemas) j < remaining (typeNames schemas) i \<and>
                 typeNames schemas' ! i \<noteq> typeNames schemas' ! j)"
proof -
  let ?names = "typeNames schemas"
  let ?occs = "typeOccurrences schemas"
  note flat = Start_collisions_flat [OF assms]
  have n: "map snd ?occs = ?names" by (simp add: typeNames_def)
  have len: "length ?occs = length ?names" by (simp add: typeNames_def)
  have new: "typeNames schemas' ! i = spec_new_name ?names i" if "i < length ?names" for i
    using that by (simp add: flat(1))
  have snd_nth: "snd (?occs ! i) = ?names ! i" if "i < length ?names" for i
    using that by (simp add: typeNames_def)
  have part_i:
    "(count_list ?names (?names ! i) = 1 \<longrightarrow> typeNames schemas' ! i = ?names ! i) \<and>
     (2 \<le> count_list ?names (?names ! i) \<longrightarrow>
        typeNames schemas' ! i = ?names ! i @ Itoa (remaining ?names i) \<and>
        0 < remaining ?names i \<and>
        remaining ?names i \<le> int (count_list ?names (?names ! i)) \<and>
        (\<exists>j. i \<le> j \<and> j < length ?names \<and>
             2 \<le> count_list ?names (?names ! j) \<and>
             collisionKey (fst (?occs ! j)) (?names ! j) =
               collisionKey (fst (?occs ! i)) (?names ! i) \<and>
             coll (collisionKey (fst (?occs ! i)) (?names ! i))
               = Some (typeNames schemas' ! j)))"
    if i: "i < length ?names" for i
  proof (intro conjI impI)
    assume "count_list ?names (?names ! i) = 1"
    then show "typeNames schemas' ! i = ?names ! i"
      by (simp add: new [OF i] spec_new_name_once)
  next
    assume c: "2 \<le> count_list ?names (?names ! i)"
    then show "typeNames schemas' ! i = ?names ! i @ Itoa (remaining ?names i)"
      by (simp add: new [OF i] spec_new_name_twice)
    from i show "0 < remaining ?names i" by (rule remaining_pos)
    show "remaining ?names i \<le> int (count_list ?names (?names ! i))"
      by (rule remaining_le)
    from i have io: "i < length ?occs" by (simp add: len)
    from c have co: "2 \<le> count_list (map snd ?occs) (snd (?occs ! i))"
      by (simp add: n snd_nth [OF i])
    from spec_collision_map_last [OF io co]
    obtain j where j: "i \<le> j" "j < length ?occs"
      "2 \<le> count_list (map snd ?occs) (snd (?occs ! j))"
      "collisionKey (fst (?occs ! j)) (snd (?occs ! j)) =
         collisionKey (fst (?occs ! i)) (snd (?occs ! i))"
      "spec_collision_map ?occs (collisionKey (fst (?occs ! i)) (snd (?occs ! i)))
         = Some (spec_new_name (map snd ?occs) j)"
      by blast
    from j(2) have jn: "j < length ?names" by (simp add: len)
    from j jn show "\<exists>j. i \<le> j \<and> j < length ?names \<and>
             2 \<le> count_list ?names (?names ! j) \<and>
             collisionKey (fst (?occs ! j)) (?names ! j) =
               collisionKey (fst (?occs ! i)) (?names ! i) \<and>
             coll (collisionKey (fst (?occs ! i)) (?names ! i))
               = Some (typeNames schemas' ! j)"
      by (intro exI [of _ j]) (simp add: n snd_nth [OF i] snd_nth [OF jn] new [OF jn] flat(2))
  qed
  have part_ij:
    "remaining ?names j < remaining ?names i \<and> typeNames schemas' ! i \<noteq> typeNames schemas' ! j"
    if "i < j \<and> j < length ?names \<and> ?names ! i = ?names ! j" for i j
  proof -
    from that have ij: "i < j" "j < length ?names" "?names ! i = ?names ! j" by simp_all
    then have "i < length ?names" by simp
    with ij show ?thesis
      using remaining_decreases [OF ij] spec_new_name_distinct [OF ij]
      by (simp add: new)
  qed
  from flat part_i part_ij show ?thesis by blast
qed

theorem Start_collisions_follows_spec_witness:
  "\<exists>schemas' coll.
     Start_collisions [schemaA, schemaB] = (schemas', coll) \<and>
     typeNames [schemaA, schemaB] = map S [''Item'', ''Item1'', ''Code'', ''Item'', ''Code''] \<and>
     typeNames schemas' = map S [''Item2'', ''Item1'', ''Code2'', ''Item1'', ''Code1''] \<and>
     coll (S ''urn:a/Item'') = Some (S ''Item2'') \<and>
     coll (S ''urn:b/Item'') = Some (S ''Item1'') \<and>
     coll (S ''urn:a/Code'') = Some (S ''Code2'') \<and>
     coll (S ''urn:b/Code'') = Some (S ''Code1'') \<and>
     coll (S ''urn:a/Item1'') = None \<and>
     typeNames schemas' ! 0 \<noteq> typeNames schemas' ! 3"
proof -
  obtain schemas' coll where r: "Start_collisions [schemaA, schemaB] = (schemas', coll)"
    by (cases "Start_collisions [schemaA, schemaB]")
  note t = Start_collisions_follows_spec [OF r]
  have names: "typeNames [schemaA, schemaB] = map S [''Item'', ''Item1'', ''Code'', ''Item'', ''Code'']"
    by code_simp
  have new: "map (spec_new_name (typeNames [schemaA, schemaB]))
               [0..<length (typeNames [schemaA, schemaB])]
             = map S [''Item2'', ''Item1'', ''Code2'', ''Item1'', ''Code1'']"
    by code_simp
  have m: "spec_collision_map (typeOccurrences [schemaA, schemaB]) (S ''urn:a/Item'') = Some (S ''Item2'')"
    "spec_collision_map (typeOccurrences [schemaA, schemaB]) (S ''urn:b/Item'') = Some (S ''Item1'')"
    "spec_collision_map (typeOccurrences [schemaA, schemaB]) (S ''urn:a/Code'') = Some (S ''Code2'')"
    "spec_collision_map (typeOccurrences [schemaA, schemaB]) (S ''urn:b/Code'') = Some (S ''Code1'')"
    "spec_collision_map (typeOccurrences [schemaA, schemaB]) (S ''urn:a/Item1'') = None"
    by code_simp+
  have "(0::nat) < 3 \<and> 3 < length (typeNames [schemaA, schemaB]) \<and>
        typeNames [schemaA, schemaB] ! 0 = typeNames [schemaA, schemaB] ! 3"
    by (simp add: names)
  with t have "typeNames schemas' ! 0 \<noteq> typeNames schemas' ! 3" by blast
  with t r names new m show ?thesis by simp
qed

text \<open>
  C2 fails on the code. Schema \<open>urn:a\<close> declares \<open>Item\<close> and \<open>Item1\<close>,
  schema \<open>urn:b\<close> declares \<open>Item\<close>: the two \<open>Item\<close>s become \<open>Item2\<close> and
  \<open>Item1\<close>, and the second of them now bears the name of the untouched \<open>Item1\<close> of
  \<open>urn:a\<close>. The names after the collision resolution are not distinct.
\<close>

theorem Start_collisions_name_clash:
  "typeNames (fst (Start_collisions [schemaA, schemaB]))
     = map S [''Item2'', ''Item1'', ''Code2'', ''Item1'', ''Code1''] \<and>
   \<not> distinct (typeNames (fst (Start_collisions [schemaA, schemaB])))"
proof -
  have "typeNames (fst (Start_collisions [schemaA, schemaB]))
          = map S [''Item2'', ''Item1'', ''Code2'', ''Item1'', ''Code1'']"
    by code_simp
  then show ?thesis by simp
qed

section \<open>Properties of the type and identifier mapping\<close>

lemma of_char_nat_inj: "(of_char a :: nat) = of_char b \<longleftrightarrow> a = b"
  by simp

lemma S_inj: "S a = S b \<longleftrightarrow> a = b"
proof -
  have "inj (of_char :: char \<Rightarrow> nat)"
    by (rule injI) simp
  then show ?thesis
    unfolding S_def by (simp add: inj_map_eq_map)
qed

lemma map_of_lits: "map_of (lits tbl) (S k) = map_option S (map_of tbl k)"
  by (induction tbl) (auto simp: lits_def S_inj)

lemma map_of_lits_Some:
  "map_of (lits tbl) k = Some v \<Longrightarrow> \<exists>k' v'. k = S k' \<and> v = S v' \<and> (k', v') \<in> set tbl"
proof (induction tbl)
  case Nil
  then show ?case by (simp add: lits_def)
next
  case (Cons p tbl)
  obtain a b where p: "p = (a, b)" by (cases p)
  show ?case
  proof (cases "k = S a")
    case True
    with Cons.prems p have "v = S b" by (simp add: lits_def)
    with True p show ?thesis by auto
  next
    case False
    with Cons.prems p have "map_of (lits tbl) k = Some v" by (simp add: lits_def)
    from Cons.IH [OF this] show ?thesis by auto
  qed
qed

lemma xsd2GoTypes_values:
  "\<forall>(k, v) \<in> set xsd2GoTypes. v \<noteq> [] \<and> hd v \<noteq> CHR ''*''"
  by (simp add: xsd2GoTypes_def)

lemma go_lookup_xsd_direct:
  assumes "go_lookup (lits xsd2GoTypes) k \<noteq> []"
  shows "hd (go_lookup (lits xsd2GoTypes) k) \<noteq> 42"
proof -
  from assms obtain v where v: "map_of (lits xsd2GoTypes) k = Some v"
    by (auto simp: go_lookup_def split: option.splits)
  then obtain k' v' where kv: "v = S v'" "(k', v') \<in> set xsd2GoTypes"
    by (blast dest: map_of_lits_Some)
  with xsd2GoTypes_values have nz: "v' \<noteq> []" and hd: "hd v' \<noteq> CHR ''*''"
    by auto
  have "(of_char (CHR ''*'') :: nat) = 42" by simp
  with hd have "(of_char (hd v') :: nat) \<noteq> 42"
    by (metis of_char_nat_inj)
  with nz kv have "hd v \<noteq> 42"
    by (cases v') (simp_all add: S_def)
  with v show ?thesis by (simp add: go_lookup_def)
qed

lemma toGoType_stripns:
  "toGoType U x n =
     (let value = go_lookup (lits xsd2GoTypes) (strings_ToLower U (stripns x))
      in if value \<noteq> [] then (if n then 42 # value else value)
         else 42 # replaceReservedWords U (makePublic U (stripns x)))"
  by (simp add: toGoType_def stripns_def Let_def)

text \<open>
  C3, as amended. A name whose namespace-stripped, lower-cased form is in the table of
  primitives maps to the table's type when it is not nillable and to that type behind one
  pointer marker when it is; the direct form never starts with the marker. Any other name
  is a reference to a complex type and maps to a pointer whatever the flag says.
\<close>

theorem toGoType_indirection:
  "(go_lookup (lits xsd2GoTypes) (strings_ToLower U (stripns x)) \<noteq> [] \<longrightarrow>
      toGoType U x False = go_lookup (lits xsd2GoTypes) (strings_ToLower U (stripns x)) \<and>
      toGoType U x True = 42 # toGoType U x False \<and>
      hd (toGoType U x False) \<noteq> 42) \<and>
   (go_lookup (lits xsd2GoTypes) (strings_ToLower U (stripns x)) = [] \<longrightarrow>
      toGoType U x False = 42 # replaceReservedWords U (makePublic U (stripns x)) \<and>
      toGoType U x True = toGoType U x False)"
  using go_lookup_xsd_direct [of "strings_ToLower U (stripns x)"]
  by (simp add: toGoType_stripns Let_def)

lemmas ident_eval =
  toGoType_def S_def Split_def lits_def xsd2GoTypes_def go_lookup_def strings_ToLower_def
  ToLower_def replaceReservedWords_def reservedWords_def makePublic_def isBasicType_def
  basicTypes_def ToUpper_def normalize_def ReplaceAll_def strings_Map_def IsLetter_def
  IsDigit_def stripns_def

text \<open>
  C3 as stated fails on a complex type: the non-nillable mapping of \<open>tns:Item\<close> is the
  pointer \<open>*Item\<close>, the same as the nillable one.
\<close>

theorem toGoType_complex_counterexample:
  "toGoType ascii_tables (S ''tns:Item'') False = S ''*Item'' \<and>
   toGoType ascii_tables (S ''tns:Item'') True = toGoType ascii_tables (S ''tns:Item'') False"
  by (simp add: ident_eval)

theorem toGoType_indirection_witness:
  "go_lookup (lits xsd2GoTypes) (strings_ToLower ascii_tables (stripns (S ''xsd:Int''))) \<noteq> [] \<and>
   toGoType ascii_tables (S ''xsd:Int'') False = S ''int32'' \<and>
   toGoType ascii_tables (S ''xsd:Int'') True = S ''*int32'' \<and>
   go_lookup (lits xsd2GoTypes) (strings_ToLower ascii_tables (stripns (S ''tns:item''))) = [] \<and>
   toGoType ascii_tables (S ''tns:item'') False = S ''*Item'' \<and>
   toGoType ascii_tables (S ''tns:item'') True = S ''*Item''"
  using toGoType_indirection [of ascii_tables "S ''xsd:Int''"]
    toGoType_indirection [of ascii_tables "S ''tns:item''"]
  by (simp add: ident_eval)

lemma ReplaceAll_commute:
  "ReplaceAll (ReplaceAll s 43 (S ''Plus'')) 64 (S ''At'') =
   ReplaceAll (ReplaceAll s 64 (S ''At'')) 43 (S ''Plus'')"
  by (induction s) (simp_all add: ReplaceAll_def S_def)

lemma replaceReservedWords_twice_example:
  "replaceReservedWords ascii_tables (S ''go!'') = S ''go'' \<and>
   replaceReservedWords ascii_tables (S ''go'') = S ''go_''"
  by (simp add: ident_eval)

lemma normalize_sanitized: "sanitized U s \<Longrightarrow> normalize U s = s"
proof (induction s)
  case Nil
  then show ?case by (simp add: normalize_def ReplaceAll_def strings_Map_def)
next
  case (Cons r s)
  from Cons.prems have r: "IsLetter U r \<or> IsDigit U r \<or> r = 95" and s: "sanitized U s"
    by (simp_all add: sanitized_def)
  from r have ne: "r \<noteq> 43" "r \<noteq> 64" "r \<noteq> 46" "r \<noteq> 45"
    by (auto simp: IsLetter_def IsDigit_def)
  from Cons.IH [OF s] ne r show ?case
    by (simp add: normalize_def ReplaceAll_def strings_Map_def Let_def)
qed

lemma keywords_reserved: "map fst reservedWords = go_keywords"
  by (simp add: reservedWords_def go_keywords_def)

lemma reserved_suffix: "\<forall>(k, v) \<in> set reservedWords. v = k @ ''_''"
  by (simp add: reservedWords_def)

lemma keyword_no_underscore: "\<forall>w \<in> set go_keywords. CHR ''_'' \<notin> set w"
  by (simp add: go_keywords_def)

lemma go_lookup_reserved_keyword:
  assumes "w \<in> set go_keywords"
  shows "go_lookup (lits reservedWords) (S w) = S (w @ ''_'')"
proof -
  from assms have "w \<in> fst ` set reservedWords"
    using keywords_reserved by (metis set_map)
  then obtain v where v: "map_of reservedWords w = Some v"
    by (metis domD dom_map_of_conv_image_fst)
  then have "(w, v) \<in> set reservedWords" by (rule map_of_SomeD)
  with reserved_suffix have "v = w @ ''_''" by auto
  with v show ?thesis by (simp add: go_lookup_def map_of_lits)
qed

lemma go_lookup_reserved_other:
  assumes "k \<notin> S ` set go_keywords"
  shows "go_lookup (lits reservedWords) k = []"
proof (cases "map_of (lits reservedWords) k")
  case None
  then show ?thesis by (simp add: go_lookup_def)
next
  case (Some v)
  then obtain k' v' where "k = S k'" "(k', v') \<in> set reservedWords"
    by (blast dest: map_of_lits_Some)
  then have "k \<in> S ` set (map fst reservedWords)" by force
  with assms show ?thesis by (simp add: keywords_reserved)
qed

text \<open>
  C4. An identifier made of letters, digits and underscores that is not a keyword of Go
  comes back unchanged from \<open>normalize\<close> and from \<open>replaceReservedWords\<close>; a
  keyword comes back with an underscore appended, which is no keyword, from both
  reserved-word functions.
\<close>

theorem sanitize_fixpoints:
  "(sanitized U s \<and> s \<notin> S ` set go_keywords \<longrightarrow>
      replaceReservedWords U s = s \<and> normalize U s = s) \<and>
   (w \<in> set go_keywords \<longrightarrow>
      replaceReservedWords U (S w) = S (w @ ''_'') \<and>
      replaceReservedWords U (S w) \<notin> S ` set go_keywords \<and>
      replaceAttrReservedWords U (S w) \<notin> S ` set go_keywords)"
proof (intro conjI impI)
  assume a: "sanitized U s \<and> s \<notin> S ` set go_keywords"
  then show "normalize U s = s" by (simp add: normalize_sanitized)
  with a show "replaceReservedWords U s = s"
    by (simp add: replaceReservedWords_def go_lookup_reserved_other)
next
  assume w: "w \<in> set go_keywords"
  then have l: "go_lookup (lits reservedWords) (S w) = S (w @ ''_'')"
    by (rule go_lookup_reserved_keyword)
  then show r: "replaceReservedWords U (S w) = S (w @ ''_'')"
    by (simp add: replaceReservedWords_def S_def)
  have nk: "S (w @ ''_'') \<notin> S ` set go_keywords"
  proof
    assume "S (w @ ''_'') \<in> S ` set go_keywords"
    then have "w @ ''_'' \<in> set go_keywords" by (auto simp: S_inj)
    with keyword_no_underscore show False by fastforce
  qed
  with r show "replaceReservedWords U (S w) \<notin> S ` set go_keywords" by simp
  from w have "w \<in> fst ` set reservedWords"
    using keywords_reserved by (metis set_map)
  then obtain v where v: "map_of reservedWords w = Some v"
    by (metis domD dom_map_of_conv_image_fst)
  then have "(w, v) \<in> set reservedWords" by (rule map_of_SomeD)
  with reserved_suffix have "v = w @ ''_''" by auto
  with v have "map_of reservedWordsInAttr w = Some (w @ ''_'')"
    by (simp add: reservedWordsInAttr_def)
  then have "go_lookup (lits reservedWordsInAttr) (S w) = S (w @ ''_'')"
    by (simp add: go_lookup_def map_of_lits)
  then have "replaceAttrReservedWords U (S w) = S (w @ ''_'')"
    by (simp add: replaceAttrReservedWords_def S_def)
  with nk show "replaceAttrReservedWords U (S w) \<notin> S ` set go_keywords" by simp
qed

theorem sanitize_fixpoints_witness:
  "sanitized ascii_tables (S ''Item_1'') \<and> S ''Item_1'' \<notin> S ` set go_keywords \<and>
   replaceReservedWords ascii_tables (S ''Item_1'') = S ''Item_1'' \<and>
   normalize ascii_tables (S ''Item_1'') = S ''Item_1'' \<and>
   ''range'' \<in> set go_keywords \<and>
   replaceReservedWords ascii_tables (S ''range'') = S ''range_''"
proof -
  have a: "sanitized ascii_tables (S ''Item_1'')"
    by (simp add: sanitized_def S_def IsLetter_def IsDigit_def)
  have b: "S ''Item_1'' \<notin> S ` set go_keywords"
    by (simp add: S_inj go_keywords_def image_iff)
  have c: "''range'' \<in> set go_keywords"
    by (simp add: go_keywords_def)
  from a b c sanitize_fixpoints [of ascii_tables "S ''Item_1''" "''range''"]
  show ?thesis by simp
qed

lemma isBasicType_iff: "isBasicType s \<longleftrightarrow> s \<in> S ` set (map fst basicTypes)"
proof
  assume "isBasicType s"
  then obtain v where "map_of (lits basicTypes) s = Some v"
    by (auto simp: isBasicType_def)
  then obtain k' v' where "s = S k'" "(k', v') \<in> set basicTypes"
    by (blast dest: map_of_lits_Some)
  then show "s \<in> S ` set (map fst basicTypes)" by force
next
  assume "s \<in> S ` set (map fst basicTypes)"
  then obtain k where k: "s = S k" "k \<in> fst ` set basicTypes" by auto
  then obtain v where "map_of basicTypes k = Some v"
    by (metis domD dom_map_of_conv_image_fst)
  with k show "isBasicType s" by (simp add: isBasicType_def map_of_lits)
qed

lemma basicTypes_keys:
  "map fst basicTypes =
     [''string'', ''float32'', ''float64'', ''int'', ''int8'', ''int16'', ''int32'', ''int64'',
      ''bool'', ''time.Time'', ''[]byte'', ''byte'', ''uint16'', ''uint32'', ''uinit64'',
      ''interface{}'']"
  by (simp add: basicTypes_def)

text \<open>
  What \<open>makePublic\<close> does with the table as the code has it: the sixteen keys of
  \<open>basicTypes\<close> come back unchanged, the empty identifier becomes \<open>EmptyString\<close>, and
  every other identifier has its first rune upper-cased and the rest left as it is.
\<close>

lemma makePublic_cases:
  "(isBasicType s \<longleftrightarrow>
      s \<in> S ` {''string'', ''float32'', ''float64'', ''int'', ''int8'', ''int16'', ''int32'',
               ''int64'', ''bool'', ''time.Time'', ''[]byte'', ''byte'', ''uint16'', ''uint32'',
               ''uinit64'', ''interface{}''}) \<and>
   (isBasicType s \<longrightarrow> makePublic U s = s) \<and>
   makePublic U [] = S ''EmptyString'' \<and>
   (\<not> isBasicType (r # rs) \<longrightarrow> makePublic U (r # rs) = ToUpper U r # rs)"
proof -
  have "[] \<notin> S ` set (map fst basicTypes)"
    by (simp add: basicTypes_keys S_def image_iff)
  then have "\<not> isBasicType []" by (simp add: isBasicType_iff)
  then show ?thesis
    by (simp add: makePublic_def isBasicType_iff basicTypes_keys)
qed

lemma makePublic_cases_example:
  "isBasicType (S ''int32'') \<and> makePublic ascii_tables (S ''int32'') = S ''int32'' \<and>
   \<not> isBasicType (S ''item'') \<and> makePublic ascii_tables (S ''item'') = S ''Item'' \<and>
   makePublic ascii_tables (S '''') = S ''EmptyString''"
proof -
  have a: "isBasicType (S ''int32'')"
    by (simp add: isBasicType_def map_of_lits basicTypes_def)
  have b: "\<not> isBasicType (S ''item'')"
    by (simp add: isBasicType_def map_of_lits basicTypes_def)
  have c: "S ''item'' = 105 # S ''tem''" "S '''' = []" by (simp_all add: S_def)
  from a b makePublic_cases [of "S ''int32''" ascii_tables]
    makePublic_cases [of "S ''int32''" ascii_tables 105 "S ''tem''"] 
  show ?thesis by (simp add: c ToUpper_def S_def)
qed

text \<open>
  C5 fails on the code at the built-in spelling \<open>uint64\<close>. The table \<open>basicTypes\<close>
  holds the key \<open>uinit64\<close> where its value shows that \<open>uint64\<close> is meant, so
  \<open>uint64\<close> is not taken for a basic type and \<open>makePublic\<close> turns it into
  \<open>Uint64\<close>, while \<open>uinit64\<close>, which spells no built-in type, passes unchanged.
\<close>

theorem makePublic_uint64_capitalised:
  "\<not> isBasicType (S ''uint64'') \<and>
   makePublic U (S ''uint64'') = S ''Uint64'' \<and>
   isBasicType (S ''uinit64'') \<and>
   makePublic U (S ''uinit64'') = S ''uinit64'' \<and>
   go_lookup (lits basicTypes) (S ''uinit64'') = S ''uint64''"
proof -
  have a: "\<not> isBasicType (S ''uint64'')" and b: "isBasicType (S ''uinit64'')"
    by (simp_all add: isBasicType_def map_of_lits basicTypes_def)
  have c: "S ''uint64'' = 117 # S ''int64''" "S ''Uint64'' = 85 # S ''int64''"
    by (simp_all add: S_def)
  have d: "go_lookup (lits basicTypes) (S ''uinit64'') = S ''uint64''"
    by (simp add: go_lookup_def map_of_lits basicTypes_def)
  from a have "makePublic U (S ''uint64'') = S ''Uint64''"
    unfolding makePublic_def c by (simp add: ToUpper_def)
  moreover from b have "makePublic U (S ''uinit64'') = S ''uinit64''"
    by (simp add: makePublic_def)
  ultimately show ?thesis using a b d by simp
qed

section \<open>Properties of findType\<close>

lemma findInSchemas_find:
  "findInSchemas U elRef schemas =
     (case find (\<lambda>el. EqualFold U elRef (el_Name el)) (concat (map Elements schemas)) of
        None \<Rightarrow> None
      | Some el \<Rightarrow> Some (if el_Type el \<noteq> [] then stripns (el_Type el) else el_Name el))"
proof -
  have els: "findInElements U elRef els =
     (case find (\<lambda>el. EqualFold U elRef (el_Name el)) els of
        None \<Rightarrow> None
      | Some el \<Rightarrow> Some (if el_Type el \<noteq> [] then stripns (el_Type el) else el_Name el))" for els
    by (induction els) simp_all
  have app: "find P (xs @ ys) = (case find P xs of None \<Rightarrow> find P ys | Some x \<Rightarrow> Some x)"
    for P :: "XSDElement \<Rightarrow> bool" and xs ys
    by (induction xs) simp_all
  show ?thesis
    by (induction schemas) (simp_all add: els app split: option.splits)
qed

lemma findTypeLoop_step:
  "findTypeLoop U schemas message (msg # msgs) lg =
     (if msg_Name msg \<noteq> message then findTypeLoop U schemas message msgs lg
      else (case carriedType U schemas msg of
              Some t \<Rightarrow> (t, lg)
            | None \<Rightarrow>
                findTypeLoop U schemas message msgs
                  (if msg_Parts msg = [] then lg @ [noPartsWarning (msg_Name msg)] else lg)))"
  by (simp add: carriedType_def findInSchemas_find split: list.splits option.splits)

lemma findTypeLoop_spec:
  "findTypeLoop U schemas message msgs lg =
     ((case List.map_filter (carriedType U schemas)
              (filter (\<lambda>msg. msg_Name msg = message) msgs) of
         [] \<Rightarrow> []
       | t # _ \<Rightarrow> t),
      lg @ map (\<lambda>msg. noPartsWarning (msg_Name msg))
             (filter (\<lambda>msg. msg_Parts msg = [])
                (takeWhile (\<lambda>msg. carriedType U schemas msg = None)
                   (filter (\<lambda>msg. msg_Name msg = message) msgs))))"
proof (induction msgs arbitrary: lg)
  case Nil
  then show ?case by (simp add: List.map_filter_simps)
next
  case (Cons msg msgs)
  show ?case
    unfolding findTypeLoop_step Cons.IH
    by (simp add: List.map_filter_simps split: option.splits)
qed

text \<open>
  C9. \<open>findType\<close> strips the namespace from the message name and returns what the first
  message of that name carries whose first part resolves: the part's declared type,
  namespace-stripped, or else the declared type (namespace-stripped) or, without one, the
  name of the first element of any schema whose name equals the part's element reference
  up to case. A message of that name without parts is passed over with one warning on the
  log; when no message resolves the result is the empty string.
\<close>

theorem findType_first_part:
  "findType U wsdl message = (findType_spec U wsdl message, findType_warnings U wsdl message)"
  by (simp add: findType_def findType_spec_def findType_warnings_def findTypeLoop_spec)

theorem findType_first_part_witness:
  "findType ascii_tables wsdlQuote (S ''tns:GetPriceRequest'')
     = (S ''GetPriceType'', [noPartsWarning (S ''GetPriceRequest'')]) \<and>
   findType_spec ascii_tables wsdlQuote (S ''tns:GetPriceRequest'') = S ''GetPriceType'' \<and>
   findType_spec ascii_tables wsdlQuote (S ''tns:Plain'') = S ''string'' \<and>
   findType_warnings ascii_tables wsdlQuote (S ''tns:Plain'') = [] \<and>
   findType ascii_tables wsdlQuote (S ''Empty'') = ([], [noPartsWarning (S ''Empty'')]) \<and>
   findType ascii_tables wsdlQuote (S ''Missing'') = ([], [])"
proof -
  have "findType ascii_tables wsdlQuote (S ''tns:GetPriceRequest'')
          = (S ''GetPriceType'', [noPartsWarning (S ''GetPriceRequest'')])"
    "findType ascii_tables wsdlQuote (S ''tns:Plain'') = (S ''string'', [])"
    "findType ascii_tables wsdlQuote (S ''Empty'') = ([], [noPartsWarning (S ''Empty'')])"
    "findType ascii_tables wsdlQuote (S ''Missing'') = ([], [])"
    by code_simp+
  with findType_first_part [of ascii_tables wsdlQuote "S ''tns:GetPriceRequest''"]
    findType_first_part [of ascii_tables wsdlQuote "S ''tns:Plain''"]
  show ?thesis by simp
qed

section \<open>Properties of the resolution of external schemas\<close>

















subsection \<open>More fuel changes nothing\<close>














section \<open>Properties of the command\<close>

lemma fold_append_concat: "fold (\<lambda>part data. data @ part) parts acc = acc @ concat parts"
  by (induction parts arbitrary: acc) simp_all

text \<open>
  C8. \<open>formattaCodice\<close> concatenates its parts and hands them to the formatter: when
  the formatter fails, the function returns the concatenation as it is and logs the
  diagnostic with the formatter's error; when the formatter succeeds, it returns the
  formatted bytes and logs nothing. It returns bytes in either case, never an error.
\<close>

theorem formattaCodice_fallback:
  "(fmt (concat parts) = Inl err \<longrightarrow>
      formattaCodice fmt parts =
        (concat parts,
         [(S ''Errore nella formattazione del sorgente, scrittura del sorgente non formattato: '',
           err)])) \<and>
   (fmt (concat parts) = Inr formatted \<longrightarrow> formattaCodice fmt parts = (formatted, []))"
  by (simp add: formattaCodice_def fold_append_concat)

theorem formattaCodice_fallback_witness:
  "(\<lambda>b. if b = ''ab'' then Inl (Err (S ''bad'')) else Inr b) (concat [''a'', ''b'']) = Inl (Err (S ''bad'')) \<and>
   fst (formattaCodice (\<lambda>b. if b = ''ab'' then Inl (Err (S ''bad'')) else Inr b) [''a'', ''b'']) = ''ab'' \<and>
   (\<lambda>b. Inr (b @ ''!'')) (concat [''a'', ''b'']) = (Inr ''ab!'' :: error + bytes) \<and>
   formattaCodice (\<lambda>b. Inr (b @ ''!'')) [''a'', ''b''] = (''ab!'', [])"
  using formattaCodice_fallback [of "\<lambda>b. if b = ''ab'' then Inl (Err (S ''bad'')) else Inr b"
      "[''a'', ''b'']" "Err (S ''bad'')"]
    formattaCodice_fallback [of "\<lambda>b. Inr (b @ ''!'')" "[''a'', ''b'']" _ "''ab!''"]
  by simp

lemma started_simps:
  "\<not> started []" "\<not> started (fatal err)" "started (RunStart g # evs)"
  "\<not> started [PrintUsage, Exit 1]" "\<not> started [LogLine t, Exit 1]"
  by (simp_all add: started_def fatal_def)

lemma TrimSpace_default_package: "TrimSpace U (pkg flagDefaults) = S ''mioServizio''"
  by (simp add: TrimSpace_def IsSpace_def S_def flagDefaults_def)

text \<open>
  C7, as amended. In a run that does not ask for the version: when \<open>os.Args\<close> holds
  the program name alone, \<open>main\<close> prints the usage and exits with status 1; when the
  WSDL path, given as the last argument, equals the output file, is blank, or is rejected
  by \<open>ParseLocation\<close>, \<open>main\<close> logs the error and exits with status 1. In none of
  these runs is \<open>Start\<close> reached, so nothing is fetched. The package name is never an
  input error: when the path parses, the run reaches \<open>Start\<close> with the trimmed value
  of the package flag, which is \<open>mioServizio\<close> when the command line does not set it,
  or with \<open>generated_from_wsdl\<close> when that value is blank.
\<close>

theorem main_input_errors:
  assumes "\<not> vers fl"
  shows "(length args < 2 \<longrightarrow> main U sys fl args = [PrintUsage, Exit 1]) \<and>
         (2 \<le> length args \<and> outFile fl = last args \<longrightarrow>
            main U sys fl args =
              [LogLine (S ''Il file di output non pu'' @ [242] @
                        S '' essere lo stesso del file WSDL''), Exit 1]) \<and>
         (2 \<le> length args \<and> outFile fl \<noteq> last args \<and> TrimSpace U (last args) = [] \<longrightarrow>
            main U sys fl args =
              [LogError (Err (S ''WSDL file is required to generate Go proxy'')), Exit 1]) \<and>
         (2 \<le> length args \<and> outFile fl \<noteq> last args \<and> TrimSpace U (last args) \<noteq> [] \<and>
          ParseLocation sys (TrimSpace U (last args)) = Inl err \<longrightarrow>
            main U sys fl args = [LogError err, Exit 1]) \<and>
         (length args < 2 \<or> outFile fl = last args \<or> TrimSpace U (last args) = [] \<or>
          ParseLocation sys (TrimSpace U (last args)) = Inl err \<longrightarrow>
            \<not> started (main U sys fl args)) \<and>
         (2 \<le> length args \<and> outFile fl \<noteq> last args \<and> TrimSpace U (last args) \<noteq> [] \<and>
          ParseLocation sys (TrimSpace U (last args)) = Inr l \<longrightarrow>
            started (main U sys fl args) \<and>
            hd (main U sys fl args) =
              RunStart \<lparr>loc = l,
                        g_pkg = (if TrimSpace U (pkg fl) = [] then S ''generated_from_wsdl''
                                 else TrimSpace U (pkg fl)),
                        ignoreTLS = insecure fl,
                        makePublicFn = (if makePublicFlag fl then makePublic U else (\<lambda>id. id))\<rparr>) \<and>
         (2 \<le> length args \<and> outFile fl \<noteq> last args \<and> TrimSpace U (last args) \<noteq> [] \<and>
          ParseLocation sys (TrimSpace U (last args)) = Inr l \<and> pkg fl = pkg flagDefaults \<longrightarrow>
            hd (main U sys fl args) =
              RunStart \<lparr>loc = l, g_pkg = S ''mioServizio'', ignoreTLS = insecure fl,
                        makePublicFn = (if makePublicFlag fl then makePublic U else (\<lambda>id. id))\<rparr>)"
proof -
  have ne: "S ''mioServizio'' \<noteq> []" by (simp add: S_def)
  have run: "main U sys fl args =
               RunStart \<lparr>loc = l,
                         g_pkg = (if TrimSpace U (pkg fl) = [] then S ''generated_from_wsdl''
                                  else TrimSpace U (pkg fl)),
                         ignoreTLS = insecure fl,
                         makePublicFn = (if makePublicFlag fl then makePublic U else (\<lambda>id. id))\<rparr> #
               tl (main U sys fl args)"
    if "2 \<le> length args" "outFile fl \<noteq> last args" "TrimSpace U (last args) \<noteq> []"
      "ParseLocation sys (TrimSpace U (last args)) = Inr l"
    using that assms by (simp add: main_def NewGoWSDL_def Let_def)
  have errs: "(length args < 2 \<longrightarrow> main U sys fl args = [PrintUsage, Exit 1]) \<and>
         (2 \<le> length args \<and> outFile fl = last args \<longrightarrow>
            main U sys fl args =
              [LogLine (S ''Il file di output non pu'' @ [242] @
                        S '' essere lo stesso del file WSDL''), Exit 1]) \<and>
         (2 \<le> length args \<and> outFile fl \<noteq> last args \<and> TrimSpace U (last args) = [] \<longrightarrow>
            main U sys fl args =
              [LogError (Err (S ''WSDL file is required to generate Go proxy'')), Exit 1]) \<and>
         (2 \<le> length args \<and> outFile fl \<noteq> last args \<and> TrimSpace U (last args) \<noteq> [] \<and>
          ParseLocation sys (TrimSpace U (last args)) = Inl err \<longrightarrow>
            main U sys fl args = [LogError err, Exit 1]) \<and>
         (length args < 2 \<or> outFile fl = last args \<or> TrimSpace U (last args) = [] \<or>
          ParseLocation sys (TrimSpace U (last args)) = Inl err \<longrightarrow>
            \<not> started (main U sys fl args))"
    using assms
    by (auto simp: main_def NewGoWSDL_def Let_def fatal_def started_def split: sum.splits)
  have go: "started (main U sys fl args) \<and>
            hd (main U sys fl args) =
              RunStart \<lparr>loc = l,
                        g_pkg = (if TrimSpace U (pkg fl) = [] then S ''generated_from_wsdl''
                                 else TrimSpace U (pkg fl)),
                        ignoreTLS = insecure fl,
                        makePublicFn = (if makePublicFlag fl then makePublic U else (\<lambda>id. id))\<rparr>"
    if "2 \<le> length args \<and> outFile fl \<noteq> last args \<and> TrimSpace U (last args) \<noteq> [] \<and>
        ParseLocation sys (TrimSpace U (last args)) = Inr l"
  proof -
    from that run have r: "main U sys fl args =
               RunStart \<lparr>loc = l,
                         g_pkg = (if TrimSpace U (pkg fl) = [] then S ''generated_from_wsdl''
                                  else TrimSpace U (pkg fl)),
                         ignoreTLS = insecure fl,
                         makePublicFn = (if makePublicFlag fl then makePublic U else (\<lambda>id. id))\<rparr> #
               tl (main U sys fl args)"
      by blast
    have "started (main U sys fl args)"
      by (subst r) (rule started_simps)
    moreover have "hd (main U sys fl args) =
              RunStart \<lparr>loc = l,
                        g_pkg = (if TrimSpace U (pkg fl) = [] then S ''generated_from_wsdl''
                                 else TrimSpace U (pkg fl)),
                        ignoreTLS = insecure fl,
                        makePublicFn = (if makePublicFlag fl then makePublic U else (\<lambda>id. id))\<rparr>"
      by (subst r) simp
    ultimately show ?thesis by blast
  qed
  have dflt: "hd (main U sys fl args) =
              RunStart \<lparr>loc = l, g_pkg = S ''mioServizio'', ignoreTLS = insecure fl,
                        makePublicFn = (if makePublicFlag fl then makePublic U else (\<lambda>id. id))\<rparr>"
    if "2 \<le> length args \<and> outFile fl \<noteq> last args \<and> TrimSpace U (last args) \<noteq> [] \<and>
        ParseLocation sys (TrimSpace U (last args)) = Inr l \<and> pkg fl = pkg flagDefaults"
  proof -
    from that have "TrimSpace U (pkg fl) = S ''mioServizio''"
      by (simp add: TrimSpace_default_package)
    with go that ne show ?thesis by simp
  qed
  from errs go dflt show ?thesis by blast
qed

lemmas main_eval =
  main_def NewGoWSDL_def TrimSpace_def IsSpace_def S_def Let_def fatal_def started_def
  sysLocal_def flagsNoPkg_def flagDefaults_def scriviCodiceGenerato_def scriviFile_def
  formattaCodice_def gocode_get_def formatLog_def

text \<open>
  C7 as stated fails. With an empty package name and a good path the run reaches
  \<open>Start\<close> and ends with the closing line of a successful run; so does the run whose
  command line names no package at all. And a run that asks for the version prints it and
  exits with status 0 even when the output file is the WSDL path.
\<close>

theorem main_empty_package_counterexample:
  "started (main ascii_tables sysLocal flagsNoPkg [S ''gowsdl'', S ''svc.wsdl'']) \<and>
   last (main ascii_tables sysLocal flagsNoPkg [S ''gowsdl'', S ''svc.wsdl''])
     = LogLine (S ''Daje '' @ [128640, 128640, 128640, 65039]) \<and>
   started (main ascii_tables sysLocal flagDefaults [S ''gowsdl'', S ''svc.wsdl'']) \<and>
   last (main ascii_tables sysLocal flagDefaults [S ''gowsdl'', S ''svc.wsdl''])
     = LogLine (S ''Daje '' @ [128640, 128640, 128640, 65039]) \<and>
   main ascii_tables sysLocal (flagsNoPkg\<lparr>vers := True, outFile := S ''svc.wsdl''\<rparr>)
     [S ''gowsdl'', S ''svc.wsdl''] = [PrintVersion, Exit 0]"
  by (simp add: main_eval)

text \<open>
  The path is the last entry of \<open>os.Args\<close> whatever that entry is: on the command line
  \<open>gowsdl -p foo\<close>, which names no WSDL file, the value of the flag is read as the path
  and the run reaches \<open>Start\<close>.
\<close>

lemma main_flags_only_example:
  "started (main ascii_tables sysLocal (flagDefaults\<lparr>pkg := S ''foo''\<rparr>)
              [S ''gowsdl'', S ''-p'', S ''foo''])"
  by (simp add: main_eval)

theorem main_input_errors_witness:
  "\<not> vers flagsNoPkg \<and> \<not> vers flagDefaults \<and>
   main ascii_tables sysLocal flagsNoPkg [S ''gowsdl''] = [PrintUsage, Exit 1] \<and>
   outFile flagsNoPkg = last [S ''gowsdl'', S ''out.go''] \<and>
   main ascii_tables sysLocal flagsNoPkg [S ''gowsdl'', S ''out.go''] =
     [LogLine (S ''Il file di output non pu'' @ [242] @
               S '' essere lo stesso del file WSDL''), Exit 1] \<and>
   \<not> started (main ascii_tables sysLocal flagsNoPkg [S ''gowsdl'', S ''out.go'']) \<and>
   TrimSpace ascii_tables (last [S ''gowsdl'', S ''  '']) = [] \<and>
   main ascii_tables sysLocal flagsNoPkg [S ''gowsdl'', S ''  ''] =
     [LogError (Err (S ''WSDL file is required to generate Go proxy'')), Exit 1] \<and>
   ParseLocation (sysLocal\<lparr>ParseLocation := \<lambda>s. Inl (Err (S ''bad''))\<rparr>)
     (TrimSpace ascii_tables (last [S ''gowsdl'', S ''svc.wsdl''])) = Inl (Err (S ''bad'')) \<and>
   main ascii_tables (sysLocal\<lparr>ParseLocation := \<lambda>s. Inl (Err (S ''bad''))\<rparr>) flagsNoPkg
     [S ''gowsdl'', S ''svc.wsdl''] = [LogError (Err (S ''bad'')), Exit 1] \<and>
   TrimSpace ascii_tables (pkg flagsNoPkg) = [] \<and>
   started (main ascii_tables sysLocal flagsNoPkg [S ''gowsdl'', S ''svc.wsdl'']) \<and>
   g_pkg (case hd (main ascii_tables sysLocal flagsNoPkg [S ''gowsdl'', S ''svc.wsdl'']) of
            RunStart g \<Rightarrow> g) = S ''generated_from_wsdl'' \<and>
   started (main ascii_tables sysLocal flagDefaults [S ''gowsdl'', S ''svc.wsdl'']) \<and>
   g_pkg (case hd (main ascii_tables sysLocal flagDefaults [S ''gowsdl'', S ''svc.wsdl'']) of
            RunStart g \<Rightarrow> g) = S ''mioServizio''"
proof -
  have v: "\<not> vers flagsNoPkg" by (simp add: flagsNoPkg_def)
  have vd: "\<not> vers flagDefaults" by (simp add: flagDefaults_def)
  have a: "TrimSpace ascii_tables (last [S ''gowsdl'', S ''  '']) = []"
    "TrimSpace ascii_tables (last [S ''gowsdl'', S ''svc.wsdl'']) = S ''svc.wsdl''"
    "TrimSpace ascii_tables (pkg flagsNoPkg) = []"
    "outFile flagsNoPkg = S ''out.go''" "outFile flagDefaults = S ''mioServizio.go''"
    by (simp_all add: TrimSpace_def IsSpace_def S_def flagsNoPkg_def flagDefaults_def)
  have p: "ParseLocation sysLocal (S ''svc.wsdl'') = Inr (S ''svc.wsdl'')"
    "ParseLocation (sysLocal\<lparr>ParseLocation := \<lambda>s. Inl (Err (S ''bad''))\<rparr>) (S ''svc.wsdl'')
       = Inl (Err (S ''bad''))"
    by (simp_all add: sysLocal_def)
  have ne: "S ''out.go'' \<noteq> S ''svc.wsdl''" "S ''out.go'' \<noteq> S ''  ''" "S ''svc.wsdl'' \<noteq> []"
    "S ''mioServizio.go'' \<noteq> S ''svc.wsdl''" "S ''mioServizio'' \<noteq> []"
    by (simp_all add: S_def)
  from main_input_errors [OF v, of "[S ''gowsdl'']" ascii_tables sysLocal]
  have 1: "main ascii_tables sysLocal flagsNoPkg [S ''gowsdl''] = [PrintUsage, Exit 1]"
    by simp
  from main_input_errors [OF v, of "[S ''gowsdl'', S ''out.go'']" ascii_tables sysLocal] a
  have 2: "main ascii_tables sysLocal flagsNoPkg [S ''gowsdl'', S ''out.go''] =
     [LogLine (S ''Il file di output non pu'' @ [242] @
               S '' essere lo stesso del file WSDL''), Exit 1]"
    "\<not> started (main ascii_tables sysLocal flagsNoPkg [S ''gowsdl'', S ''out.go''])"
    by (simp_all add: started_simps)
  from main_input_errors [OF v, of "[S ''gowsdl'', S ''  '']" ascii_tables sysLocal] a ne
  have 3: "main ascii_tables sysLocal flagsNoPkg [S ''gowsdl'', S ''  ''] =
     [LogError (Err (S ''WSDL file is required to generate Go proxy'')), Exit 1]"
    by simp
  from main_input_errors [OF v, of "[S ''gowsdl'', S ''svc.wsdl'']" ascii_tables
      "sysLocal\<lparr>ParseLocation := \<lambda>s. Inl (Err (S ''bad''))\<rparr>" "Err (S ''bad'')"] a ne p
  have 4: "main ascii_tables (sysLocal\<lparr>ParseLocation := \<lambda>s. Inl (Err (S ''bad''))\<rparr>) flagsNoPkg
     [S ''gowsdl'', S ''svc.wsdl''] = [LogError (Err (S ''bad'')), Exit 1]"
    by simp
  from main_input_errors [OF v, of "[S ''gowsdl'', S ''svc.wsdl'']" ascii_tables sysLocal _
      "S ''svc.wsdl''"] a ne p
  have 5: "started (main ascii_tables sysLocal flagsNoPkg [S ''gowsdl'', S ''svc.wsdl''])"
    "g_pkg (case hd (main ascii_tables sysLocal flagsNoPkg [S ''gowsdl'', S ''svc.wsdl'']) of
            RunStart g \<Rightarrow> g) = S ''generated_from_wsdl''"
    by simp_all
  from main_input_errors [OF vd, of "[S ''gowsdl'', S ''svc.wsdl'']" ascii_tables sysLocal _
      "S ''svc.wsdl''"] a ne p
  have 6: "started (main ascii_tables sysLocal flagDefaults [S ''gowsdl'', S ''svc.wsdl''])"
    "g_pkg (case hd (main ascii_tables sysLocal flagDefaults [S ''gowsdl'', S ''svc.wsdl'']) of
            RunStart g \<Rightarrow> g) = S ''mioServizio''"
    by (simp_all add: TrimSpace_default_package)
  from v vd 1 2 3 4 5 6 a p show ?thesis by simp
qed

end
